theory Spec2Isabelle
  imports Complex_Main
begin

section \<open>Python and NumPy values\<close>

text \<open>
  The exceptions the two functions of \<^verbatim>\<open>DataProcessing/ComputeObservables.py\<close> can raise.
  A \<^verbatim>\<open>NameError\<close> carries the name that was looked up.
\<close>

datatype py_error = NameError string | IndexError | ValueError | TypeError

text \<open>
  A NumPy \<^verbatim>\<open>float64\<close>: a finite value, one of the two infinities, or NaN. Finite values
  are real numbers and finite arithmetic is exact: rounding, overflow and the sign of zero
  are not part of this model. The runs evaluated below are at operands where the
  \<^verbatim>\<open>float64\<close> operations are exact as well (whole numbers of moderate size, a product by a
  power of two, a quotient of a value by itself), so that their finite results are those of
  the code; the weights \<open>1 / 96\<close> and \<open>1 / 6\<close> stand for their \<^verbatim>\<open>float64\<close> roundings. What
  depends on NaN, on the masks, on the counts and on the exceptions does not depend on
  rounding. Division
  by zero does not raise in NumPy (it warns): it gives NaN for \<^verbatim>\<open>0/0\<close> and an infinity
  otherwise; a zero divisor counts as \<^verbatim>\<open>+0\<close>, which is what a sum whose terms cancel gives.
\<close>

datatype npfloat = Fin real | PInf | NInf | NaN

definition inf_of_sign :: "real \<Rightarrow> npfloat" where
  "inf_of_sign a = (if 0 < a then PInf else if a < 0 then NInf else NaN)"

fun fadd :: "npfloat \<Rightarrow> npfloat \<Rightarrow> npfloat" where
  "fadd NaN y = NaN"
| "fadd x NaN = NaN"
| "fadd (Fin a) (Fin b) = Fin (a + b)"
| "fadd (Fin a) PInf = PInf"
| "fadd (Fin a) NInf = NInf"
| "fadd PInf (Fin b) = PInf"
| "fadd NInf (Fin b) = NInf"
| "fadd PInf PInf = PInf"
| "fadd NInf NInf = NInf"
| "fadd PInf NInf = NaN"
| "fadd NInf PInf = NaN"

fun fmul :: "npfloat \<Rightarrow> npfloat \<Rightarrow> npfloat" where
  "fmul NaN y = NaN"
| "fmul x NaN = NaN"
| "fmul (Fin a) (Fin b) = Fin (a * b)"
| "fmul (Fin a) PInf = inf_of_sign a"
| "fmul (Fin a) NInf = inf_of_sign (- a)"
| "fmul PInf (Fin b) = inf_of_sign b"
| "fmul NInf (Fin b) = inf_of_sign (- b)"
| "fmul PInf PInf = PInf"
| "fmul NInf NInf = PInf"
| "fmul PInf NInf = NInf"
| "fmul NInf PInf = NInf"

fun fdiv :: "npfloat \<Rightarrow> npfloat \<Rightarrow> npfloat" where
  "fdiv NaN y = NaN"
| "fdiv x NaN = NaN"
| "fdiv (Fin a) (Fin b) = (if b = 0 then inf_of_sign a else Fin (a / b))"
| "fdiv (Fin a) PInf = Fin 0"
| "fdiv (Fin a) NInf = Fin 0"
| "fdiv PInf (Fin b) = (if 0 \<le> b then PInf else NInf)"
| "fdiv NInf (Fin b) = (if 0 \<le> b then NInf else PInf)"
| "fdiv PInf PInf = NaN"
| "fdiv NInf NInf = NaN"
| "fdiv PInf NInf = NaN"
| "fdiv NInf PInf = NaN"

fun fsqrt :: "npfloat \<Rightarrow> npfloat" where
  "fsqrt (Fin a) = (if a < 0 then NaN else Fin (sqrt a))"
| "fsqrt PInf = PInf"
| "fsqrt NInf = NaN"
| "fsqrt NaN = NaN"

text \<open>\<^verbatim>\<open>x > y\<close> and \<^verbatim>\<open>x == 0\<close>: every comparison with NaN is false.\<close>

fun fgt :: "npfloat \<Rightarrow> npfloat \<Rightarrow> bool" where
  "fgt NaN y = False"
| "fgt x NaN = False"
| "fgt (Fin a) (Fin b) = (b < a)"
| "fgt (Fin a) PInf = False"
| "fgt (Fin a) NInf = True"
| "fgt PInf PInf = False"
| "fgt PInf y = True"
| "fgt NInf y = False"

fun feq0 :: "npfloat \<Rightarrow> bool" where
  "feq0 (Fin a) = (a = 0)"
| "feq0 x = False"

text \<open>\<^verbatim>\<open>np.sum\<close> of a float array; the sum of the empty array is \<^verbatim>\<open>0.0\<close>.\<close>

primrec fsum :: "npfloat list \<Rightarrow> npfloat" where
  "fsum [] = Fin 0"
| "fsum (x # xs) = fadd x (fsum xs)"

text \<open>\<^verbatim>\<open>xs[i]\<close> on an array: an index past the end raises \<^verbatim>\<open>IndexError\<close>.\<close>

definition index :: "'a list \<Rightarrow> nat \<Rightarrow> py_error + 'a" where
  "index xs i = (if i < length xs then Inr (xs ! i) else Inl IndexError)"

text \<open>
  The noise tag of a channel is a scalar or an array. \<^verbatim>\<open>if np.array(tag):\<close> takes the truth
  value of the array: that of its element when it has one element, \<^verbatim>\<open>False\<close> (with a
  deprecation warning, in the NumPy of the repository's time) when it is empty, and a
  \<^verbatim>\<open>ValueError\<close> ("the truth value of an array with more than one element is ambiguous")
  otherwise.
\<close>

datatype noise_tag = TagScalar int | TagArray "int list"

fun array_truth :: "noise_tag \<Rightarrow> py_error + bool" where
  "array_truth (TagScalar v) = Inr (v \<noteq> 0)"
| "array_truth (TagArray []) = Inr False"
| "array_truth (TagArray [v]) = Inr (v \<noteq> 0)"
| "array_truth (TagArray (v # w # vs)) = Inl ValueError"

text \<open>Boolean masks: \<^verbatim>\<open>a & b\<close>, \<^verbatim>\<open>np.sum(mask)\<close> and \<^verbatim>\<open>xs[mask]\<close>.\<close>

definition mask_and :: "bool list \<Rightarrow> bool list \<Rightarrow> bool list" where
  "mask_and a b = map2 (\<and>) a b"

definition count_true :: "bool list \<Rightarrow> nat" where
  "count_true m = length (filter id m)"

definition select :: "'a list \<Rightarrow> bool list \<Rightarrow> 'a list" where
  "select xs m = map fst (filter snd (zip xs m))"

text \<open>
  \<^verbatim>\<open>np.invert(is_noise_channel)\<close>, where \<^verbatim>\<open>is_noise_channel = np.array(...)\<close> of a Python list
  of booleans. The array of the empty list has dtype \<^verbatim>\<open>float64\<close>, for which \<^verbatim>\<open>invert\<close> is
  not defined: NumPy raises \<^verbatim>\<open>TypeError\<close>.
\<close>

definition invert_list_array :: "bool list \<Rightarrow> py_error + bool list" where
  "invert_list_array m = (if m = [] then Inl TypeError else Inr (map Not m))"

section \<open>The random generator\<close>

text \<open>
  \<^verbatim>\<open>np.random\<close> is NumPy's global generator. Its state type and its samplers are a
  parameter of the model: each sampler takes the state and returns the draw and the next
  state. \<^verbatim>\<open>np.random.normal(loc, scale)\<close> is \<^verbatim>\<open>loc + scale * z\<close> for a standard normal
  deviate \<^verbatim>\<open>z\<close>.
\<close>

record 's np_random =
  standard_normal :: "'s \<Rightarrow> real \<times> 's"
  binomial :: "'s \<Rightarrow> nat \<Rightarrow> real \<Rightarrow> nat \<times> 's"
  poisson :: "'s \<Rightarrow> real \<Rightarrow> nat \<times> 's"

definition normal :: "'s np_random \<Rightarrow> real \<Rightarrow> real \<Rightarrow> 's \<Rightarrow> npfloat \<times> 's" where
  "normal np loc scale s = (case standard_normal np s of (z, s') \<Rightarrow> (Fin (loc + scale * z), s'))"

text \<open>\<^verbatim>\<open>np.random.normal(loc, scale, size=n)\<close>: \<open>n\<close> draws, in order.\<close>

fun normal_size :: "'s np_random \<Rightarrow> real \<Rightarrow> real \<Rightarrow> nat \<Rightarrow> 's \<Rightarrow> npfloat list \<times> 's" where
  "normal_size np loc scale 0 s = ([], s)"
| "normal_size np loc scale (Suc n) s =
     (case normal np loc scale s of (x, s') \<Rightarrow>
        (case normal_size np loc scale n s' of (xs, s'') \<Rightarrow> (x # xs, s'')))"

text \<open>A sampler applied to each element of an array, in order.\<close>

fun draw_each :: "('s \<Rightarrow> 'a \<Rightarrow> 'b \<times> 's) \<Rightarrow> 'a list \<Rightarrow> 's \<Rightarrow> 'b list \<times> 's" where
  "draw_each f [] s = ([], s)"
| "draw_each f (x # xs) s =
     (case f s x of (y, s') \<Rightarrow> (case draw_each f xs s' of (ys, s'') \<Rightarrow> (y # ys, s'')))"

text \<open>
  A scripted generator for concrete runs: its state is the list of the deviates still to
  come (zeros once the list is used up). A binomial draw counts the successes of \<open>n\<close>
  trials, a trial succeeding when its deviate is below \<open>p\<close>; a Poisson draw of rate \<open>0\<close>
  is \<open>0\<close>.
\<close>

fun scripted_normal :: "real list \<Rightarrow> real \<times> real list" where
  "scripted_normal [] = (0, [])"
| "scripted_normal (z # zs) = (z, zs)"

definition scripted_binomial :: "real list \<Rightarrow> nat \<Rightarrow> real \<Rightarrow> nat \<times> real list" where
  "scripted_binomial s n p = (length (filter (\<lambda>u. u < p) (take n s)), drop n s)"

definition scripted_poisson :: "real list \<Rightarrow> real \<Rightarrow> nat \<times> real list" where
  "scripted_poisson s lam =
     (if lam = 0 then (0, s) else (nat \<lfloor>lam + fst (scripted_normal s)\<rfloor>, snd (scripted_normal s)))"

definition scripted :: "real list np_random" where
  "scripted = \<lparr>standard_normal = scripted_normal, binomial = scripted_binomial,
                poisson = scripted_poisson\<rparr>"

section \<open>The light-yield estimator\<close>

text \<open>
  \<^verbatim>\<open>ComputeObservedLight(dfsim)\<close>: a binomial draw with \<open>p = 0.03\<close> for each entry of the
  column \<^verbatim>\<open>fInitNOP\<close>, then a Poisson draw of rate \<^verbatim>\<open>detected_photons*0.2\<close> for each, and
  the sum of the two arrays. NumPy raises \<^verbatim>\<open>ValueError\<close> for a negative number of trials.
\<close>

definition ComputeObservedLight ::
  "'s np_random \<Rightarrow> int list \<Rightarrow> 's \<Rightarrow> py_error + (nat list \<times> 's)" where
  "ComputeObservedLight np fInitNOP s =
     (if list_ex (\<lambda>n. n < 0) fInitNOP then Inl ValueError
      else
        (case draw_each (\<lambda>s n. binomial np s (nat n) (3 / 100)) fInitNOP s of
           (detected_photons, s1) \<Rightarrow>
             (case draw_each (\<lambda>s k. poisson np s (real k * (2 / 10))) detected_photons s1 of
                (smear, s2) \<Rightarrow> Inr (map2 (+) detected_photons smear, s2))))"

section \<open>The charge observables\<close>

text \<open>One row of \<^verbatim>\<open>dfelec\<close>: the six per-channel arrays of an event.\<close>

record event =
  fChannelCharge :: "npfloat list"
  fChannelLocalId :: "int list"
  fChannelNoiseTag :: "noise_tag list"
  fChannelTime :: "npfloat list"
  fXPosition :: "npfloat list"
  fYPosition :: "npfloat list"

text \<open>The lists the channel loop of an event appends to.\<close>

record channel_lists =
  is_noise_channel :: "bool list"
  drift_times :: "npfloat list"
  x_positions :: "npfloat list"
  y_positions :: "npfloat list"
  x_weights :: "npfloat list"
  y_weights :: "npfloat list"
  charge_weights :: "npfloat list"
  is_x_channel :: "bool list"

definition empty_lists :: channel_lists where
  "empty_lists = \<lparr>is_noise_channel = [], drift_times = [], x_positions = [], y_positions = [],
     x_weights = [], y_weights = [], charge_weights = [], is_x_channel = []\<rparr>"

text \<open>
  The strip geometry chosen from the local id:
  \<open>(strip_width, strip_height, xoffset, yoffset)\<close>.
\<close>

definition strip_geometry :: "int \<Rightarrow> real \<times> real \<times> real \<times> real" where
  "strip_geometry lid = (if lid > 15 then (96, 6, - 96 / 2, 0) else (6, 96, 0, - 96 / 2))"

text \<open>
  The body of \<^verbatim>\<open>for i in range(nch)\<close>. The local id and the noise tag are read for every
  channel; time, position and charge only for a channel that is not noise, and the
  jitter is drawn after the time has been read.
\<close>

definition channel_step ::
  "'s np_random \<Rightarrow> event \<Rightarrow> nat \<Rightarrow> channel_lists \<times> 's \<Rightarrow> py_error + (channel_lists \<times> 's)" where
  "channel_step np row i st =
     (case st of (acc, s) \<Rightarrow>
      (case index (fChannelLocalId row) i of Inl e \<Rightarrow> Inl e | Inr lid \<Rightarrow>
       (case strip_geometry lid of (strip_width, strip_height, xoffset, yoffset) \<Rightarrow>
        (case index (fChannelNoiseTag row) i of Inl e \<Rightarrow> Inl e | Inr tag \<Rightarrow>
         (case array_truth tag of Inl e \<Rightarrow> Inl e | Inr noisy \<Rightarrow>
          if noisy then Inr (acc\<lparr>is_noise_channel := is_noise_channel acc @ [True]\<rparr>, s)
          else
           (case index (fChannelTime row) i of Inl e \<Rightarrow> Inl e | Inr t \<Rightarrow>
            (case normal np 0 2 s of (jitter, s') \<Rightarrow>
             (case index (fXPosition row) i of Inl e \<Rightarrow> Inl e | Inr x \<Rightarrow>
              (case index (fYPosition row) i of Inl e \<Rightarrow> Inl e | Inr y \<Rightarrow>
               (case index (fChannelCharge row) i of Inl e \<Rightarrow> Inl e | Inr q \<Rightarrow>
                Inr (acc\<lparr>is_noise_channel := is_noise_channel acc @ [False],
                         drift_times := drift_times acc @ [fadd t jitter],
                         x_positions := x_positions acc @ [fadd x (Fin xoffset)],
                         y_positions := y_positions acc @ [fadd y (Fin yoffset)],
                         x_weights := x_weights acc @ [Fin (1 / strip_width)],
                         y_weights := y_weights acc @ [Fin (1 / strip_height)],
                         charge_weights := charge_weights acc @ [q],
                         is_x_channel := is_x_channel acc @ [lid > 15]\<rparr>, s')))))))))))"

fun channel_loop ::
  "'s np_random \<Rightarrow> event \<Rightarrow> nat list \<Rightarrow> channel_lists \<times> 's \<Rightarrow> py_error + (channel_lists \<times> 's)" where
  "channel_loop np row [] st = Inr st"
| "channel_loop np row (i # is) st =
     (case channel_step np row i st of Inl e \<Rightarrow> Inl e | Inr st' \<Rightarrow> channel_loop np row is st')"

text \<open>
  The progress report of line 42 evaluates \<^verbatim>\<open>time.time()-start_time\<close> on every 100000th
  event. The function assigns neither name, so each is looked up among the names of the
  module (its two imports and its two functions) and then among the builtins, of which the
  function uses four; neither \<^verbatim>\<open>time\<close> nor \<^verbatim>\<open>start_time\<close> is a Python builtin.
\<close>

definition module_names :: "string list" where
  "module_names = [''np'', ''pd'', ''ComputeObservedLight'', ''ComputeObservedCharge'']"

definition builtin_names :: "string list" where
  "builtin_names = [''dict'', ''len'', ''print'', ''range'']"

definition lookup_name :: "string \<Rightarrow> py_error + unit" where
  "lookup_name n =
     (if n \<in> set (module_names @ builtin_names) then Inr () else Inl (NameError n))"

definition progress_report :: "nat \<Rightarrow> py_error + unit" where
  "progress_report counter =
     (if counter mod 100000 = 0
      then (case lookup_name ''time'' of Inl e \<Rightarrow> Inl e | Inr u \<Rightarrow> lookup_name ''start_time'')
      else Inr ())"

text \<open>The thirteen values one iteration of the event loop appends, one to each output list.\<close>

record observables =
  ev_num_channels_in_evt :: nat
  ev_evt_charge_including_noise :: npfloat
  ev_evt_charge_excluding_noise :: npfloat
  ev_evt_charge_above_threshold :: npfloat
  ev_num_channels_above_threshold :: nat
  ev_num_channels_excluding_noise :: nat
  ev_num_channels_collection :: nat
  ev_num_collection_below_threshold :: nat
  ev_num_channels_induction :: nat
  ev_weighted_radius :: npfloat
  ev_weighted_drift :: npfloat
  ev_num_channels_nonzero_charge_with_noise :: nat
  ev_num_channels_nonzero_charge_excluding_noise :: nat

text \<open>\<^verbatim>\<open>np.random.normal(0.,600.,size=nch) + row['fElecChannels.fChannelCharge']\<close>.\<close>

definition fluctuated_charge :: "'s np_random \<Rightarrow> event \<Rightarrow> 's \<Rightarrow> npfloat list \<times> 's" where
  "fluctuated_charge np row s =
     (case normal_size np 0 600 (length (fChannelCharge row)) s of
        (noise, s') \<Rightarrow> (map2 fadd noise (fChannelCharge row), s'))"

text \<open>
  Lines 90 to 125: the weighted position and drift time, the masks and the sums. The
  first \<^verbatim>\<open>np.invert(is_noise_channel)\<close> is that of line 116; the values computed before
  it are pure, so that its \<^verbatim>\<open>TypeError\<close> is the outcome for an event with no channel.
\<close>

definition event_observables ::
  "npfloat \<Rightarrow> event \<Rightarrow> channel_lists \<Rightarrow> npfloat list \<Rightarrow> py_error + observables" where
  "event_observables channel_threshold row ch fluctuated =
     (let charge = fChannelCharge row;
          cx = map2 fmul (charge_weights ch) (x_weights ch);
          cy = map2 fmul (charge_weights ch) (y_weights ch);
          weighted_x = fdiv (fsum (map2 fmul (x_positions ch) cx)) (fsum cx);
          weighted_y = fdiv (fsum (map2 fmul (y_positions ch) cy)) (fsum cy);
          nonzero_mask = map (\<lambda>q. \<not> feq0 q) charge;
          threshold_mask = map (\<lambda>f. fgt f channel_threshold) fluctuated
      in
        (case invert_list_array (is_noise_channel ch) of Inl e \<Rightarrow> Inl e | Inr not_noise \<Rightarrow>
           Inr \<lparr>ev_num_channels_in_evt = length charge,
                ev_evt_charge_including_noise = fsum (select charge nonzero_mask),
                ev_evt_charge_excluding_noise =
                  fsum (select charge (mask_and nonzero_mask not_noise)),
                ev_evt_charge_above_threshold =
                  fsum (select fluctuated (mask_and threshold_mask not_noise)),
                ev_num_channels_above_threshold = count_true (mask_and threshold_mask not_noise),
                ev_num_channels_excluding_noise = count_true not_noise,
                ev_num_channels_collection = count_true (mask_and not_noise nonzero_mask),
                ev_num_collection_below_threshold =
                  count_true (mask_and (mask_and not_noise nonzero_mask) (map Not threshold_mask)),
                ev_num_channels_induction = count_true (mask_and not_noise (map Not nonzero_mask)),
                ev_weighted_radius =
                  fsqrt (fadd (fmul weighted_x weighted_x) (fmul weighted_y weighted_y)),
                ev_weighted_drift =
                  fdiv (fsum (map2 fmul (drift_times ch) (charge_weights ch)))
                       (fsum (charge_weights ch)),
                ev_num_channels_nonzero_charge_with_noise = count_true nonzero_mask,
                ev_num_channels_nonzero_charge_excluding_noise =
                  count_true (mask_and nonzero_mask not_noise)\<rparr>))"

text \<open>One iteration of the event loop, after the progress report.\<close>

definition process_event ::
  "'s np_random \<Rightarrow> npfloat \<Rightarrow> event \<Rightarrow> 's \<Rightarrow> py_error + (observables \<times> 's)" where
  "process_event np channel_threshold row s =
     (case channel_loop np row [0..<length (fChannelCharge row)] (empty_lists, s) of
        Inl e \<Rightarrow> Inl e
      | Inr (ch, s1) \<Rightarrow>
          (case fluctuated_charge np row s1 of (fluctuated, s2) \<Rightarrow>
             (case event_observables channel_threshold row ch fluctuated of
                Inl e \<Rightarrow> Inl e
              | Inr obs \<Rightarrow> Inr (obs, s2))))"

text \<open>
  \<^verbatim>\<open>for index,row in dfelec.iterrows()\<close>. The thirteen output lists grow together, by one
  entry each per event: the loop state holds them as one list of \<open>observables\<close>, which
  \<open>make_output_dict\<close> splits into the thirteen arrays where the source fills its dictionary.
\<close>

fun event_loop ::
  "'s np_random \<Rightarrow> npfloat \<Rightarrow> event list \<Rightarrow> nat \<times> observables list \<times> 's
     \<Rightarrow> py_error + (observables list \<times> 's)" where
  "event_loop np channel_threshold [] (counter, rows, s) = Inr (rows, s)"
| "event_loop np channel_threshold (row # rest) (counter, rows, s) =
     (case progress_report (counter + 1) of
        Inl e \<Rightarrow> Inl e
      | Inr u \<Rightarrow>
          (case process_event np channel_threshold row s of
             Inl e \<Rightarrow> Inl e
           | Inr (obs, s') \<Rightarrow>
               event_loop np channel_threshold rest (counter + 1, rows @ [obs], s')))"

record output_dict =
  num_channels_in_evt :: "nat list"
  evt_charge_including_noise :: "npfloat list"
  evt_charge_excluding_noise :: "npfloat list"
  evt_charge_above_threshold :: "npfloat list"
  num_channels_above_threshold :: "nat list"
  num_channels_excluding_noise :: "nat list"
  num_channels_collection :: "nat list"
  num_collection_below_threshold :: "nat list"
  num_channels_induction :: "nat list"
  weighted_radius :: "npfloat list"
  weighted_drift :: "npfloat list"
  num_channels_nonzero_charge_with_noise :: "nat list"
  num_channels_nonzero_charge_excluding_noise :: "nat list"

definition make_output_dict :: "observables list \<Rightarrow> output_dict" where
  "make_output_dict rows =
     \<lparr>num_channels_in_evt = map ev_num_channels_in_evt rows,
      evt_charge_including_noise = map ev_evt_charge_including_noise rows,
      evt_charge_excluding_noise = map ev_evt_charge_excluding_noise rows,
      evt_charge_above_threshold = map ev_evt_charge_above_threshold rows,
      num_channels_above_threshold = map ev_num_channels_above_threshold rows,
      num_channels_excluding_noise = map ev_num_channels_excluding_noise rows,
      num_channels_collection = map ev_num_channels_collection rows,
      num_collection_below_threshold = map ev_num_collection_below_threshold rows,
      num_channels_induction = map ev_num_channels_induction rows,
      weighted_radius = map ev_weighted_radius rows,
      weighted_drift = map ev_weighted_drift rows,
      num_channels_nonzero_charge_with_noise = map ev_num_channels_nonzero_charge_with_noise rows,
      num_channels_nonzero_charge_excluding_noise =
        map ev_num_channels_nonzero_charge_excluding_noise rows\<rparr>"

text \<open>The default of the parameter \<^verbatim>\<open>channel_threshold\<close>.\<close>

definition default_channel_threshold :: npfloat where
  "default_channel_threshold = Fin (- 100000)"

definition ComputeObservedCharge ::
  "'s np_random \<Rightarrow> event list \<Rightarrow> npfloat \<Rightarrow> 's \<Rightarrow> py_error + (output_dict \<times> 's)" where
  "ComputeObservedCharge np dfelec channel_threshold s =
     (case event_loop np channel_threshold dfelec (0, [], s) of
        Inl e \<Rightarrow> Inl e
      | Inr (rows, s') \<Rightarrow> Inr (make_output_dict rows, s'))"

section \<open>Notions used in the statements\<close>

text \<open>
  The channels of \<open>is\<close> whose noise tag is falsy: the ones for which the channel loop
  takes its \<^verbatim>\<open>else\<close> branch.
\<close>

definition non_noise :: "event \<Rightarrow> nat list \<Rightarrow> nat list" where
  "non_noise row is = filter (\<lambda>i. array_truth (fChannelNoiseTag row ! i) = Inr False) is"

text \<open>
  The scenario of the specification: an X-channel (local id \<open>lx\<close>) at \<open>(10, 0)\<close> and a
  Y-channel (local id \<open>ly\<close>) at \<open>(0, 10)\<close>, both of charge 5 and drift time 100, neither
  tagged as noise.
\<close>

definition scenario_event :: "int \<Rightarrow> int \<Rightarrow> event" where
  "scenario_event lx ly =
     \<lparr>fChannelCharge = [Fin 5, Fin 5], fChannelLocalId = [lx, ly],
      fChannelNoiseTag = [TagScalar 0, TagScalar 0], fChannelTime = [Fin 100, Fin 100],
      fXPosition = [Fin 10, Fin 0], fYPosition = [Fin 0, Fin 10]\<rparr>"

text \<open>An event with at least one channel, every channel of which is tagged as noise.\<close>

definition all_noise :: "event \<Rightarrow> bool" where
  "all_noise row =
     (fChannelCharge row \<noteq> [] \<and>
      length (fChannelCharge row) \<le> length (fChannelLocalId row) \<and>
      length (fChannelCharge row) \<le> length (fChannelNoiseTag row) \<and>
      list_all (\<lambda>i. array_truth (fChannelNoiseTag row ! i) = Inr True)
        [0..<length (fChannelCharge row)])"

text \<open>
  Two events of one channel: an induction channel (not noise, charge zero) and a noise
  channel.
\<close>

definition induction_event :: event where
  "induction_event =
     \<lparr>fChannelCharge = [Fin 0], fChannelLocalId = [3], fChannelNoiseTag = [TagScalar 0],
      fChannelTime = [Fin 100], fXPosition = [Fin 1], fYPosition = [Fin 2]\<rparr>"

definition noise_event :: event where
  "noise_event =
     \<lparr>fChannelCharge = [Fin 7], fChannelLocalId = [20], fChannelNoiseTag = [TagScalar 1],
      fChannelTime = [Fin 100], fXPosition = [Fin 1], fYPosition = [Fin 2]\<rparr>"

text \<open>One array of the output of a call, when the call returns.\<close>

definition returned_column ::
  "(output_dict \<Rightarrow> 'a) \<Rightarrow> py_error + (output_dict \<times> 's) \<Rightarrow> 'a option" where
  "returned_column f r = (case r of Inl e \<Rightarrow> None | Inr (out, s) \<Rightarrow> Some (f out))"

text \<open>
  The fluctuated charges of an event processed from generator state \<open>s\<close>: the draws of
  line 110 come after the jitters of the channel loop.
\<close>

definition event_fluctuated_charge :: "'s np_random \<Rightarrow> event \<Rightarrow> 's \<Rightarrow> npfloat list" where
  "event_fluctuated_charge np row s =
     (case channel_loop np row [0..<length (fChannelCharge row)] (empty_lists, s) of
        Inl e \<Rightarrow> []
      | Inr (ch, s1) \<Rightarrow> fst (fluctuated_charge np row s1))"

text \<open>
  What the light-yield estimator needs of NumPy's samplers: a binomial draw of \<open>n\<close> trials
  is at most \<open>n\<close>, and a Poisson draw of rate \<open>0\<close> is \<open>0\<close>.
\<close>

definition binomial_in_support :: "'s np_random \<Rightarrow> bool" where
  "binomial_in_support np = (\<forall>s n p. fst (binomial np s n p) \<le> n)"

definition poisson_in_support :: "'s np_random \<Rightarrow> bool" where
  "poisson_in_support np = (\<forall>s. fst (poisson np s 0) = 0)"

text \<open>The array a call of \<^verbatim>\<open>ComputeObservedLight\<close> returns, when it returns.\<close>

definition returned_photoelectrons :: "py_error + (nat list \<times> 's) \<Rightarrow> nat list option" where
  "returned_photoelectrons r = (case r of Inl e \<Rightarrow> None | Inr (pe, s) \<Rightarrow> Some pe)"

text \<open>An event whose array of local ids is shorter than its array of charges.\<close>

definition short_event :: event where
  "short_event =
     \<lparr>fChannelCharge = [Fin 7], fChannelLocalId = [], fChannelNoiseTag = [TagScalar 1],
      fChannelTime = [Fin 100], fXPosition = [Fin 1], fYPosition = [Fin 2]\<rparr>"

text \<open>
  An event with every array cut to the length of its array of charges, and an event whose
  other arrays are longer than its array of charges.
\<close>

definition truncate_event :: "event \<Rightarrow> event" where
  "truncate_event row =
     (let n = length (fChannelCharge row) in
      row\<lparr>fChannelLocalId := take n (fChannelLocalId row),
          fChannelNoiseTag := take n (fChannelNoiseTag row),
          fChannelTime := take n (fChannelTime row),
          fXPosition := take n (fXPosition row),
          fYPosition := take n (fYPosition row)\<rparr>)"

definition long_event :: event where
  "long_event =
     \<lparr>fChannelCharge = [Fin 5], fChannelLocalId = [20, 3],
      fChannelNoiseTag = [TagScalar 0, TagScalar 1], fChannelTime = [Fin 100, Fin 200],
      fXPosition = [Fin 52, Fin 0], fYPosition = [Fin 0, Fin 0]\<rparr>"

text \<open>
  The truth value of a noise tag in the words of the specification: an array-valued tag is
  truthy when any of its elements is nonzero. It is compared with \<open>array_truth\<close>, which is
  what the code evaluates.
\<close>

primrec spec_truthy :: "noise_tag \<Rightarrow> bool" where
  "spec_truthy (TagScalar v) = (v \<noteq> 0)"
| "spec_truthy (TagArray vs) = list_ex (\<lambda>v. v \<noteq> 0) vs"

text \<open>An event whose one channel carries a tag of two elements, the second nonzero.\<close>

definition multi_tag_event :: event where
  "multi_tag_event =
     \<lparr>fChannelCharge = [Fin 7], fChannelLocalId = [20], fChannelNoiseTag = [TagArray [0, 1]],
      fChannelTime = [Fin 100], fXPosition = [Fin 1], fYPosition = [Fin 2]\<rparr>"

text \<open>
  An event that the loops can read: it has a channel, no array is shorter than the array of
  charges, and the truth value of every noise tag is defined.
\<close>

definition readable :: "event \<Rightarrow> bool" where
  "readable row =
     (let n = length (fChannelCharge row) in
      0 < n \<and> n \<le> length (fChannelLocalId row) \<and> n \<le> length (fChannelNoiseTag row) \<and>
      n \<le> length (fChannelTime row) \<and> n \<le> length (fXPosition row) \<and>
      n \<le> length (fYPosition row) \<and>
      list_all (\<lambda>i. \<not> isl (array_truth (fChannelNoiseTag row ! i))) [0..<n])"

section \<open>Lemmas\<close>

lemmas run_defs =
  ComputeObservedCharge_def process_event_def progress_report_def lookup_name_def
  module_names_def builtin_names_def channel_step_def index_def strip_geometry_def normal_def
  scripted_def fluctuated_charge_def event_observables_def invert_list_array_def
  make_output_dict_def empty_lists_def default_channel_threshold_def inf_of_sign_def
  mask_and_def count_true_def select_def Let_def

subsection \<open>The channel loop\<close>

lemma channel_step_noise:
  assumes "channel_step np row i (acc, s) = Inr (acc', s')"
  shows "i < length (fChannelLocalId row) \<and> i < length (fChannelNoiseTag row) \<and>
         (\<exists>b. array_truth (fChannelNoiseTag row ! i) = Inr b \<and>
              is_noise_channel acc' = is_noise_channel acc @ [b])"
  using assms
  by (auto simp: channel_step_def index_def strip_geometry_def
      split: if_splits sum.splits prod.splits)

lemma channel_step_True:
  assumes "channel_step np row i (acc, s) = Inr (acc', s')"
    and "array_truth (fChannelNoiseTag row ! i) = Inr True"
  shows "s' = s \<and> acc' = acc\<lparr>is_noise_channel := is_noise_channel acc @ [True]\<rparr>"
  using assms
  by (auto simp: channel_step_def index_def strip_geometry_def
      split: if_splits sum.splits prod.splits)

lemma channel_step_False:
  assumes "channel_step np row i (acc, s) = Inr (acc', s')"
    and "array_truth (fChannelNoiseTag row ! i) = Inr False"
  shows "s' = snd (normal np 0 2 s) \<and>
     i < length (fChannelTime row) \<and> i < length (fXPosition row) \<and>
     i < length (fYPosition row) \<and> i < length (fChannelCharge row) \<and>
     acc' = acc\<lparr>is_noise_channel := is_noise_channel acc @ [False],
       drift_times := drift_times acc @ [fadd (fChannelTime row ! i) (fst (normal np 0 2 s))],
       x_positions := x_positions acc @
         [fadd (fXPosition row ! i) (Fin (if fChannelLocalId row ! i > 15 then - 48 else 0))],
       y_positions := y_positions acc @
         [fadd (fYPosition row ! i) (Fin (if fChannelLocalId row ! i > 15 then 0 else - 48))],
       x_weights := x_weights acc @ [Fin (if fChannelLocalId row ! i > 15 then 1 / 96 else 1 / 6)],
       y_weights := y_weights acc @ [Fin (if fChannelLocalId row ! i > 15 then 1 / 6 else 1 / 96)],
       charge_weights := charge_weights acc @ [fChannelCharge row ! i],
       is_x_channel := is_x_channel acc @ [fChannelLocalId row ! i > 15]\<rparr>"
  using assms
  by (auto simp: channel_step_def index_def strip_geometry_def
      split: if_splits sum.splits prod.splits)

lemma non_noise_Nil [simp]: "non_noise row [] = []"
  by (simp add: non_noise_def)

lemma non_noise_Cons:
  "non_noise row (i # is) =
     (if array_truth (fChannelNoiseTag row ! i) = Inr False then i # non_noise row is
      else non_noise row is)"
  by (simp add: non_noise_def)

text \<open>
  What a run of the channel loop that raises nothing has appended: a flag for every
  channel, and one entry of every other list for every channel that is not noise, the
  jitters being the draws of the generator in order.
\<close>

lemma channel_loop_lists:
  "channel_loop np row is (acc, s) = Inr (acc', s') \<Longrightarrow>
     s' = snd (normal_size np 0 2 (length (non_noise row is)) s) \<and>
     is_noise_channel acc' = is_noise_channel acc @
       map (\<lambda>i. array_truth (fChannelNoiseTag row ! i) = Inr True) is \<and>
     drift_times acc' = drift_times acc @
       map2 (\<lambda>i j. fadd (fChannelTime row ! i) j) (non_noise row is)
         (fst (normal_size np 0 2 (length (non_noise row is)) s)) \<and>
     x_positions acc' = x_positions acc @
       map (\<lambda>i. fadd (fXPosition row ! i) (Fin (if fChannelLocalId row ! i > 15 then - 48 else 0)))
         (non_noise row is) \<and>
     y_positions acc' = y_positions acc @
       map (\<lambda>i. fadd (fYPosition row ! i) (Fin (if fChannelLocalId row ! i > 15 then 0 else - 48)))
         (non_noise row is) \<and>
     x_weights acc' = x_weights acc @
       map (\<lambda>i. Fin (if fChannelLocalId row ! i > 15 then 1 / 96 else 1 / 6)) (non_noise row is) \<and>
     y_weights acc' = y_weights acc @
       map (\<lambda>i. Fin (if fChannelLocalId row ! i > 15 then 1 / 6 else 1 / 96)) (non_noise row is) \<and>
     charge_weights acc' = charge_weights acc @
       map (\<lambda>i. fChannelCharge row ! i) (non_noise row is) \<and>
     is_x_channel acc' = is_x_channel acc @
       map (\<lambda>i. fChannelLocalId row ! i > 15) (non_noise row is)"
proof (induction "is" arbitrary: acc s)
  case Nil
  then show ?case by simp
next
  case (Cons i "is")
  from Cons.prems obtain acc1 s1 where
    step: "channel_step np row i (acc, s) = Inr (acc1, s1)" and
    rest: "channel_loop np row is (acc1, s1) = Inr (acc', s')"
    by (auto split: sum.splits)
  from channel_step_noise [OF step] obtain b where
    b: "array_truth (fChannelNoiseTag row ! i) = Inr b" by blast
  note IH = Cons.IH [OF rest]
  show ?case
  proof (cases b)
    case True
    with b channel_step_True [OF step] have
      "s1 = s" "acc1 = acc\<lparr>is_noise_channel := is_noise_channel acc @ [True]\<rparr>"
      by simp_all
    with IH b True show ?thesis by (simp add: non_noise_Cons)
  next
    case False
    with b have bf: "array_truth (fChannelNoiseTag row ! i) = Inr False" by simp
    note st = channel_step_False [OF step bf]
    from st have s1: "s1 = snd (normal np 0 2 s)" by simp
    from st have acc1: "acc1 = acc\<lparr>is_noise_channel := is_noise_channel acc @ [False],
       drift_times := drift_times acc @ [fadd (fChannelTime row ! i) (fst (normal np 0 2 s))],
       x_positions := x_positions acc @
         [fadd (fXPosition row ! i) (Fin (if fChannelLocalId row ! i > 15 then - 48 else 0))],
       y_positions := y_positions acc @
         [fadd (fYPosition row ! i) (Fin (if fChannelLocalId row ! i > 15 then 0 else - 48))],
       x_weights := x_weights acc @ [Fin (if fChannelLocalId row ! i > 15 then 1 / 96 else 1 / 6)],
       y_weights := y_weights acc @ [Fin (if fChannelLocalId row ! i > 15 then 1 / 6 else 1 / 96)],
       charge_weights := charge_weights acc @ [fChannelCharge row ! i],
       is_x_channel := is_x_channel acc @ [fChannelLocalId row ! i > 15]\<rparr>" by simp
    show ?thesis
      using IH bf unfolding s1 acc1
      by (simp add: non_noise_Cons split: prod.splits)
  qed
qed

lemma channel_loop_in_range:
  "channel_loop np row is (acc, s) = Inr (acc', s') \<Longrightarrow> i \<in> set is \<Longrightarrow>
     i < length (fChannelLocalId row) \<and> i < length (fChannelNoiseTag row) \<and>
     (\<exists>b. array_truth (fChannelNoiseTag row ! i) = Inr b)"
proof (induction "is" arbitrary: acc s)
  case Nil
  then show ?case by simp
next
  case (Cons j "is")
  from Cons.prems(1) obtain acc1 s1 where
    step: "channel_step np row j (acc, s) = Inr (acc1, s1)" and
    rest: "channel_loop np row is (acc1, s1) = Inr (acc', s')"
    by (auto split: sum.splits)
  show ?case
  proof (cases "i = j")
    case True
    with channel_step_noise [OF step] show ?thesis by blast
  next
    case False
    with Cons.prems(2) have "i \<in> set is" by simp
    from Cons.IH [OF rest this] show ?thesis .
  qed
qed

subsection \<open>Masks\<close>

lemma count_true_split:
  "length a = length b \<Longrightarrow>
     count_true (mask_and a b) + count_true (mask_and a (map Not b)) = count_true a"
  by (induction a b rule: list_induct2) (auto simp: count_true_def mask_and_def)

lemma count_true_Not_zero:
  "count_true (map Not m) = 0 \<Longrightarrow> b \<in> set m \<Longrightarrow> b"
  by (auto simp: count_true_def filter_empty_conv)

lemma mask_and_all_False:
  assumes a: "\<forall>b\<in>set a. \<not> b"
  shows "count_true (mask_and a m) = 0 \<and> select xs (mask_and a m) = []"
proof -
  have "\<forall>p\<in>set (zip a m). \<not> (fst p \<and> snd p)"
    using a by (auto dest: set_zip_leftD)
  then have f: "\<forall>b\<in>set (mask_and a m). \<not> b"
    by (auto simp: mask_and_def)
  then have "filter id (mask_and a m) = []"
    by (auto simp: filter_empty_conv)
  moreover have "filter snd (zip xs (mask_and a m)) = []"
    using f by (auto simp: filter_empty_conv dest: set_zip_rightD)
  ultimately show ?thesis by (simp add: count_true_def select_def)
qed

subsection \<open>The event loop\<close>

lemma process_event_Inr:
  assumes "process_event np thr row s = Inr (obs, s')"
  shows "\<exists>ch s1. channel_loop np row [0..<length (fChannelCharge row)] (empty_lists, s) = Inr (ch, s1)
           \<and> is_noise_channel ch \<noteq> []
           \<and> s' = snd (fluctuated_charge np row s1)
           \<and> event_observables thr row ch (fst (fluctuated_charge np row s1)) = Inr obs"
  using assms
  by (auto simp: process_event_def event_observables_def invert_list_array_def Let_def
      split: sum.splits prod.splits if_splits)

lemma event_loop_append:
  "event_loop np thr (xs @ ys) (c, rows, s) =
     (case event_loop np thr xs (c, rows, s) of
        Inl e \<Rightarrow> Inl e
      | Inr (rows1, s1) \<Rightarrow> event_loop np thr ys (c + length xs, rows1, s1))"
  by (induction xs arbitrary: c rows s) (auto split: sum.splits)

lemma event_loop_rows:
  "event_loop np thr evs (c, rows, s) = Inr (rows', s') \<Longrightarrow>
     \<exists>new. rows' = rows @ new \<and> length new = length evs"
proof (induction evs arbitrary: c rows s)
  case Nil
  then show ?case by simp
next
  case (Cons ev evs)
  from Cons.prems obtain obs s1 where
    "event_loop np thr evs (c + 1, rows @ [obs], s1) = Inr (rows', s')"
    by (auto split: sum.splits)
  from Cons.IH [OF this] obtain new where "rows' = (rows @ [obs]) @ new" "length new = length evs"
    by blast
  then have "rows' = rows @ (obs # new) \<and> length (obs # new) = length (ev # evs)" by simp
  then show ?case by blast
qed

text \<open>
  In a run that returns, the \<open>k\<close>-th entries of the output are the observables of the
  \<open>k\<close>-th event, computed from the generator state that the first \<open>k\<close> events leave.
\<close>

lemma event_loop_nth:
  assumes run: "event_loop np thr evs (0, [], s) = Inr (rows, s')" and k: "k < length evs"
  shows "length rows = length evs \<and>
    (\<exists>rk sk sk'. event_loop np thr (take k evs) (0, [], s) = Inr (rk, sk) \<and>
        Suc k mod 100000 \<noteq> 0 \<and>
        process_event np thr (evs ! k) sk = Inr (rows ! k, sk'))"
proof -
  from event_loop_rows [OF run] have len: "length rows = length evs" by auto
  have split: "evs = take k evs @ (evs ! k # drop (Suc k) evs)"
    using k by (simp add: id_take_nth_drop [symmetric])
  from run have "event_loop np thr (take k evs @ (evs ! k # drop (Suc k) evs)) (0, [], s)
      = Inr (rows, s')"
    using split by simp
  then obtain rk sk where
    pre: "event_loop np thr (take k evs) (0, [], s) = Inr (rk, sk)" and
    post: "event_loop np thr (evs ! k # drop (Suc k) evs) (0 + length (take k evs), rk, sk)
      = Inr (rows, s')"
    unfolding event_loop_append by (auto split: sum.splits)
  from event_loop_rows [OF pre] have lrk: "length rk = k" using k by auto
  from post k obtain obs sk' where
    pr: "progress_report (Suc k) = Inr ()" and
    pe: "process_event np thr (evs ! k) sk = Inr (obs, sk')" and
    rest: "event_loop np thr (drop (Suc k) evs) (Suc k, rk @ [obs], sk') = Inr (rows, s')"
    by (auto simp: min_def split: sum.splits)
  from event_loop_rows [OF rest] obtain new where "rows = (rk @ [obs]) @ new" by blast
  with lrk have "rows ! k = obs" by (simp add: nth_append)
  moreover from pr have "Suc k mod 100000 \<noteq> 0"
    by (auto simp: progress_report_def lookup_name_def module_names_def builtin_names_def
        split: if_splits)
  ultimately show ?thesis using len pre pe by blast
qed

lemma ComputeObservedCharge_Inr:
  assumes "ComputeObservedCharge np dfelec thr s = Inr (out, s')"
  shows "\<exists>rows. event_loop np thr dfelec (0, [], s) = Inr (rows, s') \<and> out = make_output_dict rows"
  using assms by (auto simp: ComputeObservedCharge_def split: sum.splits)

lemma process_event_counts:
  assumes "process_event np thr row s = Inr (obs, s')"
  shows "ev_num_channels_collection obs + ev_num_channels_induction obs
           = ev_num_channels_excluding_noise obs"
proof -
  from process_event_Inr [OF assms] obtain ch s1 where
    loop: "channel_loop np row [0..<length (fChannelCharge row)] (empty_lists, s) = Inr (ch, s1)"
    and ne: "is_noise_channel ch \<noteq> []"
    and obs: "event_observables thr row ch (fst (fluctuated_charge np row s1)) = Inr obs"
    by blast
  from channel_loop_lists [OF loop]
  have len: "length (is_noise_channel ch) = length (fChannelCharge row)"
    by (simp add: empty_lists_def)
  from obs ne have
    "ev_num_channels_collection obs = count_true (mask_and (map Not (is_noise_channel ch))
        (map (\<lambda>q. \<not> feq0 q) (fChannelCharge row)))"
    "ev_num_channels_induction obs = count_true (mask_and (map Not (is_noise_channel ch))
        (map Not (map (\<lambda>q. \<not> feq0 q) (fChannelCharge row))))"
    "ev_num_channels_excluding_noise obs = count_true (map Not (is_noise_channel ch))"
    by (auto simp: event_observables_def invert_list_array_def Let_def)
  then show ?thesis
    using count_true_split [of "map Not (is_noise_channel ch)"
        "map (\<lambda>q. \<not> feq0 q) (fChannelCharge row)"] len
    by simp
qed

lemma process_event_excluding_noise:
  assumes pe: "process_event np thr row s = Inr (obs, s')"
  shows "ev_num_channels_excluding_noise obs
           = length (non_noise row [0..<length (fChannelCharge row)])"
proof -
  let ?is = "[0..<length (fChannelCharge row)]"
  let ?t = "\<lambda>i. array_truth (fChannelNoiseTag row ! i)"
  from process_event_Inr [OF pe] obtain ch s1 where
    loop: "channel_loop np row ?is (empty_lists, s) = Inr (ch, s1)"
    and ne: "is_noise_channel ch \<noteq> []"
    and obs: "event_observables thr row ch (fst (fluctuated_charge np row s1)) = Inr obs"
    by blast
  from channel_loop_lists [OF loop]
  have flags: "is_noise_channel ch = map (\<lambda>i. ?t i = Inr True) ?is"
    by (simp add: empty_lists_def)
  have "filter (\<lambda>i. \<not> ?t i = Inr True) ?is = filter (\<lambda>i. ?t i = Inr False) ?is"
  proof (rule filter_cong [OF refl])
    fix i assume "i \<in> set ?is"
    from channel_loop_in_range [OF loop this] obtain b where "?t i = Inr b" by blast
    then show "(\<not> ?t i = Inr True) = (?t i = Inr False)" by auto
  qed
  then have "count_true (map Not (is_noise_channel ch)) = length (non_noise row ?is)"
    by (simp add: flags count_true_def non_noise_def filter_map comp_def)
  moreover from obs ne
  have "ev_num_channels_excluding_noise obs = count_true (map Not (is_noise_channel ch))"
    by (auto simp: event_observables_def invert_list_array_def Let_def)
  ultimately show ?thesis by simp
qed

lemma no_signal_radius:
  assumes "x_positions ch = []" "y_positions ch = []" "charge_weights ch = []"
    and "event_observables thr row ch fl = Inr obs"
  shows "ev_weighted_radius obs = NaN"
  using assms
  by (auto simp: event_observables_def Let_def inf_of_sign_def split: sum.splits)

lemma process_event_no_signal:
  assumes pe: "process_event np thr row s = Inr (obs, s')"
    and z: "non_noise row [0..<length (fChannelCharge row)] = []"
  shows "ev_weighted_radius obs = NaN"
proof -
  from process_event_Inr [OF pe] obtain ch s1 where
    loop: "channel_loop np row [0..<length (fChannelCharge row)] (empty_lists, s) = Inr (ch, s1)"
    and obs: "event_observables thr row ch (fst (fluctuated_charge np row s1)) = Inr obs"
    by blast
  from channel_loop_lists [OF loop] z
  have "x_positions ch = []" "y_positions ch = []" "charge_weights ch = []"
    by (simp_all add: empty_lists_def)
  from no_signal_radius [OF this obs] show ?thesis .
qed

lemma channel_loop_all_noise:
  "\<forall>i\<in>set is. i < length (fChannelLocalId row) \<and> i < length (fChannelNoiseTag row) \<and>
      array_truth (fChannelNoiseTag row ! i) = Inr True \<Longrightarrow>
   channel_loop np row is (acc, s) =
     Inr (acc\<lparr>is_noise_channel := is_noise_channel acc @ replicate (length is) True\<rparr>, s)"
proof (induction "is" arbitrary: acc)
  case Nil
  then show ?case by simp
next
  case (Cons i "is")
  then have "channel_step np row i (acc, s)
      = Inr (acc\<lparr>is_noise_channel := is_noise_channel acc @ [True]\<rparr>, s)"
    by (simp add: channel_step_def index_def strip_geometry_def)
  with Cons show ?case by (simp add: replicate_app_Cons_same)
qed

lemma process_event_all_noise:
  assumes "all_noise row"
  shows "\<exists>obs. process_event np thr row s = Inr (obs, snd (fluctuated_charge np row s)) \<and>
           ev_weighted_radius obs = NaN"
proof -
  let ?n = "length (fChannelCharge row)"
  from assms have n: "?n \<noteq> 0" and
    "\<forall>i\<in>set [0..<?n]. i < length (fChannelLocalId row) \<and> i < length (fChannelNoiseTag row) \<and>
      array_truth (fChannelNoiseTag row ! i) = Inr True"
    by (auto simp: all_noise_def list_all_iff)
  from channel_loop_all_noise [OF this(2), where acc = empty_lists and np = np and s = s]
  have loop: "channel_loop np row [0..<?n] (empty_lists, s) =
     Inr (empty_lists\<lparr>is_noise_channel := replicate ?n True\<rparr>, s)"
    by (simp add: empty_lists_def)
  from n have "replicate ?n True \<noteq> []" by simp
  then obtain obs where
    obs: "event_observables thr row (empty_lists\<lparr>is_noise_channel := replicate ?n True\<rparr>)
        (fst (fluctuated_charge np row s)) = Inr obs"
    by (auto simp: event_observables_def invert_list_array_def Let_def)
  then have pe: "process_event np thr row s = Inr (obs, snd (fluctuated_charge np row s))"
    using loop by (cases "fluctuated_charge np row s") (simp add: process_event_def)
  have "ev_weighted_radius obs = NaN"
    by (rule no_signal_radius [OF _ _ _ obs]) (simp_all add: empty_lists_def)
  with pe show ?thesis by blast
qed

text \<open>A run extended by one more event.\<close>

lemma ComputeObservedCharge_snoc:
  assumes pre: "ComputeObservedCharge np pre thr s = Inr (out0, s0)"
    and c: "Suc (length pre) mod 100000 \<noteq> 0"
    and pe: "process_event np thr row s0 = Inr (obs, s1)"
  shows "\<exists>rows. out0 = make_output_dict rows \<and>
     ComputeObservedCharge np (pre @ [row]) thr s = Inr (make_output_dict (rows @ [obs]), s1)"
proof -
  from ComputeObservedCharge_Inr [OF pre] obtain rows where
    run: "event_loop np thr pre (0, [], s) = Inr (rows, s0)" and
    out: "out0 = make_output_dict rows" by blast
  from c have "progress_report (Suc (length pre)) = Inr ()"
    by (simp add: progress_report_def)
  with run pe have "event_loop np thr (pre @ [row]) (0, [], s) = Inr (rows @ [obs], s1)"
    by (simp add: event_loop_append)
  with out show ?thesis by (auto simp: ComputeObservedCharge_def)
qed

lemma fgt_asym: "fgt a b \<Longrightarrow> \<not> fgt b a"
  by (cases a; cases b) auto

lemma process_event_above_threshold:
  assumes pe: "process_event np thr row s = Inr (obs, s')"
    and above: "\<forall>c\<in>set (event_fluctuated_charge np row s). fgt thr c"
  shows "ev_num_channels_above_threshold obs = 0 \<and> ev_evt_charge_above_threshold obs = Fin 0"
proof -
  from process_event_Inr [OF pe] obtain ch s1 where
    loop: "channel_loop np row [0..<length (fChannelCharge row)] (empty_lists, s) = Inr (ch, s1)"
    and ne: "is_noise_channel ch \<noteq> []"
    and obs: "event_observables thr row ch (fst (fluctuated_charge np row s1)) = Inr obs"
    by blast
  let ?fl = "fst (fluctuated_charge np row s1)"
  let ?mask = "map (\<lambda>f. fgt f thr) ?fl"
  from loop have "event_fluctuated_charge np row s = ?fl"
    by (simp add: event_fluctuated_charge_def)
  with above have "\<forall>b\<in>set ?mask. \<not> b"
    by (auto dest: fgt_asym)
  note mask_and_all_False [OF this, where m = "map Not (is_noise_channel ch)" and xs = ?fl]
  with obs ne show ?thesis
    by (auto simp: event_observables_def invert_list_array_def Let_def)
qed

subsection \<open>Runs that return\<close>

text \<open>
  The statements below about the output of a call are about calls that return. There are
  such calls for every input of the expected form: a collection of fewer than 100000
  readable events is processed without an exception, whatever the generator.
\<close>

lemma channel_step_returns:
  assumes "i < length (fChannelLocalId row)" "i < length (fChannelNoiseTag row)"
    "i < length (fChannelTime row)" "i < length (fXPosition row)" "i < length (fYPosition row)"
    "i < length (fChannelCharge row)" "\<not> isl (array_truth (fChannelNoiseTag row ! i))"
  shows "\<not> isl (channel_step np row i st)"
  using assms
  by (cases st; cases "array_truth (fChannelNoiseTag row ! i)")
     (auto simp: channel_step_def index_def split_beta)

lemma channel_loop_returns:
  assumes "\<forall>i\<in>set is. i < length (fChannelLocalId row) \<and> i < length (fChannelNoiseTag row) \<and>
    i < length (fChannelTime row) \<and> i < length (fXPosition row) \<and> i < length (fYPosition row) \<and>
    i < length (fChannelCharge row) \<and> \<not> isl (array_truth (fChannelNoiseTag row ! i))"
  shows "\<not> isl (channel_loop np row is st)"
  using assms
proof (induction "is" arbitrary: st)
  case Nil
  then show ?case by simp
next
  case (Cons i "is")
  then have "\<not> isl (channel_step np row i st)"
    by (intro channel_step_returns) simp_all
  then obtain st' where "channel_step np row i st = Inr st'"
    by (cases "channel_step np row i st") auto
  with Cons show ?case by simp
qed

lemma process_event_returns:
  assumes "readable row"
  shows "\<not> isl (process_event np thr row s)"
proof -
  let ?n = "length (fChannelCharge row)"
  from assms have n: "0 < ?n" by (simp add: readable_def Let_def)
  from assms have "\<not> isl (channel_loop np row [0..<?n] (empty_lists, s))"
    by (intro channel_loop_returns) (auto simp: readable_def Let_def list_all_iff)
  then obtain ch s1 where
    loop: "channel_loop np row [0..<?n] (empty_lists, s) = Inr (ch, s1)"
    by (cases "channel_loop np row [0..<?n] (empty_lists, s)") auto
  from channel_loop_lists [OF loop] n have "is_noise_channel ch \<noteq> []"
    by (simp add: empty_lists_def)
  with loop show ?thesis
    by (simp add: process_event_def event_observables_def invert_list_array_def Let_def split_beta)
qed

lemma event_loop_returns:
  "c + length evs < 100000 \<Longrightarrow> \<forall>row\<in>set evs. readable row \<Longrightarrow>
     \<not> isl (event_loop np thr evs (c, rows, s))"
proof (induction evs arbitrary: c rows s)
  case Nil
  then show ?case by simp
next
  case (Cons ev evs)
  from Cons.prems have pr: "progress_report (c + 1) = Inr ()"
    by (simp add: progress_report_def)
  from Cons.prems process_event_returns [of ev np thr s] obtain obs s1 where
    pe: "process_event np thr ev s = Inr (obs, s1)"
    by (cases "process_event np thr ev s") auto
  from Cons.prems have "c + 1 + length evs < 100000" "\<forall>row\<in>set evs. readable row" by simp_all
  from Cons.IH [OF this] pr pe show ?case by simp
qed

lemma ComputeObservedCharge_returns:
  assumes "length dfelec < 100000" "\<forall>row\<in>set dfelec. readable row"
  shows "\<not> isl (ComputeObservedCharge np dfelec thr s)"
proof -
  from event_loop_returns [of 0 dfelec np thr "[]" s] assms
  obtain r where "event_loop np thr dfelec (0, [], s) = Inr r"
    by (cases "event_loop np thr dfelec (0, [], s)") auto
  then show ?thesis by (cases r) (simp add: ComputeObservedCharge_def)
qed

subsection \<open>Draws\<close>

lemma draw_each_length: "length (fst (draw_each f xs s)) = length xs"
  by (induction xs arbitrary: s) (simp_all add: split_beta)

lemma draw_each_nth:
  "k < length xs \<Longrightarrow> \<exists>sk. fst (draw_each f xs s) ! k = fst (f sk (xs ! k))"
proof (induction xs arbitrary: s k)
  case Nil
  then show ?case by simp
next
  case (Cons x xs)
  show ?case
  proof (cases k)
    case 0
    then show ?thesis by (auto split: prod.splits intro: exI [of _ s])
  next
    case (Suc j)
    with Cons.prems have "j < length xs" by simp
    from Cons.IH [OF this, of "snd (f s x)"] Suc show ?thesis
      by (auto split: prod.splits)
  qed
qed

text \<open>A run of fewer than 100000 noise events, on the scripted generator, returns.\<close>

lemma event_loop_replicate_noise:
  "c + n < 100000 \<Longrightarrow>
   \<exists>rows'. event_loop scripted default_channel_threshold (replicate n noise_event) (c, rows, [])
     = Inr (rows', [])"
proof (induction n arbitrary: c rows)
  case 0
  then show ?case by simp
next
  case (Suc n)
  from Suc.prems have "progress_report (c + 1) = Inr ()"
    by (simp add: progress_report_def)
  moreover have "\<exists>obs. process_event scripted default_channel_threshold noise_event [] = Inr (obs, [])"
    by (simp add: run_defs noise_event_def)
  moreover from Suc.prems have "c + 1 + n < 100000" by simp
  ultimately show ?case using Suc.IH by fastforce
qed

subsection \<open>Arrays of different lengths\<close>

lemma index_take: "i < n \<Longrightarrow> index (take n xs) i = index xs i"
  by (simp add: index_def)

lemma channel_step_truncate:
  "i < length (fChannelCharge row) \<Longrightarrow>
     channel_step np (truncate_event row) i st = channel_step np row i st"
  by (simp add: channel_step_def truncate_event_def Let_def index_take
      cong: sum.case_cong prod.case_cong if_cong)

lemma channel_loop_truncate:
  "\<forall>i\<in>set is. i < length (fChannelCharge row) \<Longrightarrow>
     channel_loop np (truncate_event row) is st = channel_loop np row is st"
  by (induction "is" arbitrary: st) (simp_all add: channel_step_truncate cong: sum.case_cong)

lemma process_event_truncate:
  "process_event np thr (truncate_event row) s = process_event np thr row s"
proof -
  have c: "fChannelCharge (truncate_event row) = fChannelCharge row"
    by (simp add: truncate_event_def Let_def)
  have "channel_loop np (truncate_event row) [0..<length (fChannelCharge row)] (empty_lists, s)
      = channel_loop np row [0..<length (fChannelCharge row)] (empty_lists, s)"
    by (rule channel_loop_truncate) simp
  then show ?thesis
    by (simp add: process_event_def c fluctuated_charge_def event_observables_def
        cong: sum.case_cong prod.case_cong)
qed

lemma event_loop_truncate:
  "event_loop np thr (map truncate_event evs) (c, rows, s) = event_loop np thr evs (c, rows, s)"
  by (induction evs arbitrary: c rows s)
    (simp_all add: process_event_truncate cong: sum.case_cong prod.case_cong)

lemma run_channel_loops:
  assumes run: "ComputeObservedCharge np dfelec thr s = Inr (out, s')"
    and row: "row \<in> set dfelec"
  shows "\<exists>sk ch s1. channel_loop np row [0..<length (fChannelCharge row)] (empty_lists, sk)
           = Inr (ch, s1) \<and> is_noise_channel ch \<noteq> []"
proof -
  from row obtain k where k: "k < length dfelec" and r: "row = dfelec ! k"
    by (auto simp: in_set_conv_nth)
  from ComputeObservedCharge_Inr [OF run] obtain rows where
    loop: "event_loop np thr dfelec (0, [], s) = Inr (rows, s')" by blast
  from event_loop_nth [OF loop k] r obtain sk sk' where
    "process_event np thr row sk = Inr (rows ! k, sk')" by auto
  from process_event_Inr [OF this] show ?thesis by blast
qed

lemma run_arrays_long_enough:
  assumes run: "ComputeObservedCharge np dfelec thr s = Inr (out, s')"
    and row: "row \<in> set dfelec" and i: "i < length (fChannelCharge row)"
  shows "i < length (fChannelLocalId row) \<and> i < length (fChannelNoiseTag row) \<and>
         (\<exists>b. array_truth (fChannelNoiseTag row ! i) = Inr b)"
proof -
  from run_channel_loops [OF run row] obtain sk ch s1 where
    "channel_loop np row [0..<length (fChannelCharge row)] (empty_lists, sk) = Inr (ch, s1)"
    by blast
  from channel_loop_in_range [OF this, of i] i show ?thesis by simp
qed

lemma channel_loop_signal_in_range:
  "channel_loop np row is (acc, s) = Inr (acc', s') \<Longrightarrow> i \<in> set is \<Longrightarrow>
   array_truth (fChannelNoiseTag row ! i) = Inr False \<Longrightarrow>
     i < length (fChannelTime row) \<and> i < length (fXPosition row) \<and> i < length (fYPosition row)"
proof (induction "is" arbitrary: acc s)
  case Nil
  then show ?case by simp
next
  case (Cons j "is")
  from Cons.prems(1) obtain acc1 s1 where
    step: "channel_step np row j (acc, s) = Inr (acc1, s1)" and
    rest: "channel_loop np row is (acc1, s1) = Inr (acc', s')"
    by (auto split: sum.splits)
  show ?case
  proof (cases "i = j")
    case True
    with channel_step_False [OF step] Cons.prems(3) show ?thesis by simp
  next
    case False
    with Cons.prems(2) have "i \<in> set is" by simp
    from Cons.IH [OF rest this Cons.prems(3)] show ?thesis .
  qed
qed

lemma run_signal_arrays_long_enough:
  assumes run: "ComputeObservedCharge np dfelec thr s = Inr (out, s')"
    and row: "row \<in> set dfelec" and i: "i < length (fChannelCharge row)"
    and sig: "array_truth (fChannelNoiseTag row ! i) = Inr False"
  shows "i < length (fChannelTime row) \<and> i < length (fXPosition row) \<and> i < length (fYPosition row)"
proof -
  from run_channel_loops [OF run row] obtain sk ch s1 where
    "channel_loop np row [0..<length (fChannelCharge row)] (empty_lists, sk) = Inr (ch, s1)"
    by blast
  from channel_loop_signal_in_range [OF this _ sig] i show ?thesis by simp
qed

lemma array_truth_spec: "array_truth t = Inr b \<Longrightarrow> b = spec_truthy t"
  by (induction t rule: array_truth.induct) auto

section \<open>The claims\<close>

text \<open>
  C1, as amended. In a run of \<^verbatim>\<open>ComputeObservedCharge\<close> that returns, an event none of whose
  channels is non-noise has \<^verbatim>\<open>weighted_radius\<close> NaN (and zero channels excluding noise).
  And an event of at least one channel, all of them noise, raises nothing: appended to a run
  that returns, not as a 100000th event, it gives a run that returns, with NaN as its
  \<^verbatim>\<open>weighted_radius\<close>. The converse direction of the claim is not part of the statement.
\<close>

theorem C1_nan_without_signal_channel:
  "(ComputeObservedCharge np dfelec channel_threshold s = Inr (out, s') \<longrightarrow>
      (\<forall>k<length dfelec.
         non_noise (dfelec ! k) [0..<length (fChannelCharge (dfelec ! k))] = [] \<longrightarrow>
           num_channels_excluding_noise out ! k = 0 \<and> weighted_radius out ! k = NaN)) \<and>
   (ComputeObservedCharge np pre channel_threshold s = Inr (out_pre, s_pre) \<and>
    Suc (length pre) mod 100000 \<noteq> 0 \<and> all_noise row \<longrightarrow>
      (\<exists>out1 s1. ComputeObservedCharge np (pre @ [row]) channel_threshold s = Inr (out1, s1) \<and>
         weighted_radius out1 = weighted_radius out_pre @ [NaN]))"
proof (intro conjI impI allI)
  fix k
  assume run0: "ComputeObservedCharge np dfelec channel_threshold s = Inr (out, s')"
    and k: "k < length dfelec"
    and z: "non_noise (dfelec ! k) [0..<length (fChannelCharge (dfelec ! k))] = []"
  from ComputeObservedCharge_Inr [OF run0] obtain rows where
    run: "event_loop np channel_threshold dfelec (0, [], s) = Inr (rows, s')" and
    out: "out = make_output_dict rows" by blast
  from event_loop_nth [OF run k] obtain sk sk' where
    len: "length rows = length dfelec" and
    pe: "process_event np channel_threshold (dfelec ! k) sk = Inr (rows ! k, sk')" by blast
  from process_event_excluding_noise [OF pe] z len k
  show "num_channels_excluding_noise out ! k = 0"
    by (simp add: out make_output_dict_def)
  from process_event_no_signal [OF pe z] len k show "weighted_radius out ! k = NaN"
    by (simp add: out make_output_dict_def)
next
  assume a: "ComputeObservedCharge np pre channel_threshold s = Inr (out_pre, s_pre) \<and>
    Suc (length pre) mod 100000 \<noteq> 0 \<and> all_noise row"
  from a process_event_all_noise [of row np channel_threshold s_pre] obtain obs where
    pe: "process_event np channel_threshold row s_pre = Inr (obs, snd (fluctuated_charge np row s_pre))"
    and nan: "ev_weighted_radius obs = NaN" by blast
  from ComputeObservedCharge_snoc [OF _ _ pe] a obtain rows where
    "out_pre = make_output_dict rows"
    "ComputeObservedCharge np (pre @ [row]) channel_threshold s
       = Inr (make_output_dict (rows @ [obs]), snd (fluctuated_charge np row s_pre))"
    by blast
  with nan
  show "\<exists>out1 s1. ComputeObservedCharge np (pre @ [row]) channel_threshold s = Inr (out1, s1) \<and>
         weighted_radius out1 = weighted_radius out_pre @ [NaN]"
    by (simp add: make_output_dict_def)
qed

theorem C1_nan_without_signal_channel_witness:
  "ComputeObservedCharge scripted [] default_channel_threshold [] = Inr (make_output_dict [], []) \<and>
   Suc (length ([] :: event list)) mod 100000 \<noteq> 0 \<and> all_noise noise_event \<and>
   (0::nat) < length [noise_event] \<and>
   non_noise ([noise_event] ! 0) [0..<length (fChannelCharge ([noise_event] ! 0))] = [] \<and>
   returned_column weighted_radius
     (ComputeObservedCharge scripted [noise_event] default_channel_threshold []) = Some [NaN] \<and>
   returned_column num_channels_excluding_noise
     (ComputeObservedCharge scripted [noise_event] default_channel_threshold []) = Some [0]"
proof -
  let ?thr = default_channel_threshold
  have h1: "ComputeObservedCharge scripted [] ?thr [] = Inr (make_output_dict [], [])"
    by (simp add: ComputeObservedCharge_def)
  have h2: "all_noise noise_event"
    by (simp add: all_noise_def noise_event_def)
  have h3: "non_noise ([noise_event] ! 0) [0..<length (fChannelCharge ([noise_event] ! 0))] = []"
    by (simp add: non_noise_def noise_event_def)
  note inst = C1_nan_without_signal_channel [where np = scripted and channel_threshold = "?thr"
      and s = "[]" and pre = "[]" and out_pre = "make_output_dict []" and s_pre = "[]"
      and row = noise_event and dfelec = "[noise_event]"]
  from inst [THEN conjunct2] h1 h2 obtain out1 s1 where
    run: "ComputeObservedCharge scripted [noise_event] ?thr [] = Inr (out1, s1)" and
    r: "weighted_radius out1 = [NaN]"
    by (auto simp: make_output_dict_def)
  from inst [where out = out1 and s' = s1, THEN conjunct1] run h3
  have "num_channels_excluding_noise out1 ! 0 = 0" by simp
  moreover from ComputeObservedCharge_Inr [OF run] event_loop_rows
  have "length (num_channels_excluding_noise out1) = 1"
    by (fastforce simp: make_output_dict_def)
  ultimately have "num_channels_excluding_noise out1 = [0]"
    by (cases "num_channels_excluding_noise out1") auto
  with run r h1 h2 h3 show ?thesis by (simp add: returned_column_def)
qed

theorem C1_nan_with_signal_channel_counterexample:
  "non_noise induction_event [0..<length (fChannelCharge induction_event)] = [0] \<and>
   ComputeObservedCharge scripted [induction_event] default_channel_threshold [] =
     Inr (\<lparr>num_channels_in_evt = [1],
           evt_charge_including_noise = [Fin 0],
           evt_charge_excluding_noise = [Fin 0],
           evt_charge_above_threshold = [Fin 0],
           num_channels_above_threshold = [1],
           num_channels_excluding_noise = [1],
           num_channels_collection = [0],
           num_collection_below_threshold = [0],
           num_channels_induction = [1],
           weighted_radius = [NaN],
           weighted_drift = [NaN],
           num_channels_nonzero_charge_with_noise = [0],
           num_channels_nonzero_charge_excluding_noise = [0]\<rparr>, [])"
  by (simp add: run_defs induction_event_def non_noise_def)

text \<open>
  C2. The geometry chosen from a local id is strip width 96, strip height 6, x-offset -48,
  y-offset 0 when the id is greater than 15, and 6, 96, 0, -48 otherwise. In a channel loop
  that raises nothing, the channels that are not noise are recorded as X-channels exactly
  when their local id is greater than 15, with the weights \<open>1 / strip_width\<close> and
  \<open>1 / strip_height\<close> and the positions shifted by the offsets of that geometry.
\<close>

theorem C2_orientation_and_geometry:
  assumes "channel_loop np row [0..<length (fChannelCharge row)] (empty_lists, s) = Inr (ch, s')"
  shows "strip_geometry lid = (if lid > 15 then (96, 6, - 48, 0) else (6, 96, 0, - 48)) \<and>
    is_x_channel ch = map (\<lambda>i. fChannelLocalId row ! i > 15)
      (non_noise row [0..<length (fChannelCharge row)]) \<and>
    x_weights ch = map (\<lambda>i. Fin (1 / (if fChannelLocalId row ! i > 15 then 96 else 6)))
      (non_noise row [0..<length (fChannelCharge row)]) \<and>
    y_weights ch = map (\<lambda>i. Fin (1 / (if fChannelLocalId row ! i > 15 then 6 else 96)))
      (non_noise row [0..<length (fChannelCharge row)]) \<and>
    x_positions ch = map (\<lambda>i. fadd (fXPosition row ! i)
        (Fin (if fChannelLocalId row ! i > 15 then - 48 else 0)))
      (non_noise row [0..<length (fChannelCharge row)]) \<and>
    y_positions ch = map (\<lambda>i. fadd (fYPosition row ! i)
        (Fin (if fChannelLocalId row ! i > 15 then 0 else - 48)))
      (non_noise row [0..<length (fChannelCharge row)])"
proof -
  have w: "(\<lambda>i. Fin (1 / (if fChannelLocalId row ! i > 15 then 96 else 6)))
      = (\<lambda>i. Fin (if fChannelLocalId row ! i > 15 then 1 / 96 else 1 / 6))"
    "(\<lambda>i. Fin (1 / (if fChannelLocalId row ! i > 15 then 6 else 96)))
      = (\<lambda>i. Fin (if fChannelLocalId row ! i > 15 then 1 / 6 else 1 / 96))"
    by auto
  from channel_loop_lists [OF assms] show ?thesis
    unfolding w by (simp add: empty_lists_def strip_geometry_def)
qed

theorem C2_orientation_and_geometry_witness:
  "(case channel_loop scripted (scenario_event 16 15)
           [0..<length (fChannelCharge (scenario_event 16 15))] (empty_lists, []) of
      Inl e \<Rightarrow> False
    | Inr (ch, s') \<Rightarrow>
        is_x_channel ch = [True, False] \<and>
        x_weights ch = [Fin (1 / 96), Fin (1 / 6)] \<and>
        y_weights ch = [Fin (1 / 6), Fin (1 / 96)] \<and>
        x_positions ch = [Fin (- 38), Fin 0] \<and>
        y_positions ch = [Fin 0, Fin (- 38)])"
proof -
  let ?row = "scenario_event 16 15"
  obtain ch s' where loop:
    "channel_loop scripted ?row [0..<length (fChannelCharge ?row)] (empty_lists, []) = Inr (ch, s')"
    by (simp add: run_defs scenario_event_def upt_rec)
  have nn: "non_noise ?row [0..<length (fChannelCharge ?row)] = [0, 1]"
    by (simp add: non_noise_def scenario_event_def upt_rec)
  from C2_orientation_and_geometry [OF loop] show ?thesis
    unfolding nn loop by (simp add: scenario_event_def)
qed

text \<open>
  C3, as amended. On a collection of at least 100000 events \<^verbatim>\<open>ComputeObservedCharge\<close> never
  returns: it raises. When the first 99999 events alone are processed without an
  exception, the exception is the \<^verbatim>\<open>NameError\<close> of the name \<^verbatim>\<open>time\<close>, raised by the progress
  report of the 100000th event.
\<close>

theorem C3_name_error_at_100000:
  assumes len: "100000 \<le> length dfelec"
  shows "isl (ComputeObservedCharge np dfelec channel_threshold s) \<and>
     (\<not> isl (ComputeObservedCharge np (take 99999 dfelec) channel_threshold s) \<longrightarrow>
        ComputeObservedCharge np dfelec channel_threshold s = Inl (NameError ''time''))"
proof -
  let ?pre = "take 99999 dfelec"
  from len have "99999 < length dfelec" by simp
  from id_take_nth_drop [OF this]
  have split: "dfelec = ?pre @ (dfelec ! 99999 # drop (Suc 99999) dfelec)" .
  from len have lp: "length ?pre = 99999" by simp
  have report: "progress_report 100000 = Inl (NameError ''time'')"
    by (simp add: progress_report_def lookup_name_def module_names_def builtin_names_def)
  show ?thesis
  proof (cases "event_loop np channel_threshold ?pre (0, [], s)")
    case (Inl e)
    then have "event_loop np channel_threshold dfelec (0, [], s) = Inl e"
      by (subst split) (simp add: event_loop_append)
    with Inl show ?thesis by (simp add: ComputeObservedCharge_def)
  next
    case (Inr r)
    obtain rows1 s1 where r: "r = (rows1, s1)" by (cases r)
    from Inr r lp report
    have "event_loop np channel_threshold dfelec (0, [], s) = Inl (NameError ''time'')"
      by (subst split) (simp add: event_loop_append)
    then show ?thesis by (simp add: ComputeObservedCharge_def)
  qed
qed

theorem C3_name_error_at_100000_witness:
  "100000 \<le> length (replicate 100000 noise_event) \<and>
   \<not> isl (ComputeObservedCharge scripted (take 99999 (replicate 100000 noise_event))
            default_channel_threshold []) \<and>
   ComputeObservedCharge scripted (replicate 100000 noise_event) default_channel_threshold []
     = Inl (NameError ''time'')"
proof -
  have "take 99999 (replicate 100000 noise_event) = replicate 99999 noise_event" by simp
  moreover from event_loop_replicate_noise [of 0 99999 "[]"]
  have "\<not> isl (ComputeObservedCharge scripted (replicate 99999 noise_event)
            default_channel_threshold [])"
    by (auto simp: ComputeObservedCharge_def)
  ultimately have ok: "\<not> isl (ComputeObservedCharge scripted (take 99999 (replicate 100000 noise_event))
            default_channel_threshold [])" by simp
  have len: "100000 \<le> length (replicate 100000 noise_event)" by simp
  from C3_name_error_at_100000 [OF len, of scripted default_channel_threshold "[]"] ok len
  show ?thesis by blast
qed

theorem C3_earlier_error_counterexample:
  "length (short_event # replicate 99999 noise_event) = 100000 \<and>
   ComputeObservedCharge scripted (short_event # replicate 99999 noise_event)
     default_channel_threshold [] = Inl IndexError"
  by (simp add: ComputeObservedCharge_def progress_report_def process_event_def
      channel_step_def index_def short_event_def)

text \<open>
  C4, as amended. No check of the array lengths is made. Entries of the other five arrays
  past the length of the array of charges are never read: a collection gives the same
  result, or the same exception, as the collection with every event cut to the length of
  its charges. The call raises when an array is too short where the channel loop reads it:
  the local ids or the noise tags at any channel, the times or the positions at a channel
  that is not noise.
\<close>

theorem C4_longer_arrays_truncated:
  "ComputeObservedCharge np (map truncate_event dfelec) channel_threshold s
     = ComputeObservedCharge np dfelec channel_threshold s \<and>
   (row \<in> set dfelec \<and> i < length (fChannelCharge row) \<and>
    (length (fChannelLocalId row) \<le> i \<or> length (fChannelNoiseTag row) \<le> i \<or>
     array_truth (fChannelNoiseTag row ! i) = Inr False \<and>
       (length (fChannelTime row) \<le> i \<or> length (fXPosition row) \<le> i \<or>
        length (fYPosition row) \<le> i)) \<longrightarrow>
      isl (ComputeObservedCharge np dfelec channel_threshold s))"
proof (intro conjI impI)
  show "ComputeObservedCharge np (map truncate_event dfelec) channel_threshold s
     = ComputeObservedCharge np dfelec channel_threshold s"
    by (simp add: ComputeObservedCharge_def event_loop_truncate)
next
  assume a: "row \<in> set dfelec \<and> i < length (fChannelCharge row) \<and>
    (length (fChannelLocalId row) \<le> i \<or> length (fChannelNoiseTag row) \<le> i \<or>
     array_truth (fChannelNoiseTag row ! i) = Inr False \<and>
       (length (fChannelTime row) \<le> i \<or> length (fXPosition row) \<le> i \<or>
        length (fYPosition row) \<le> i))"
  show "isl (ComputeObservedCharge np dfelec channel_threshold s)"
  proof (rule ccontr)
    assume "\<not> isl (ComputeObservedCharge np dfelec channel_threshold s)"
    then obtain out s' where
      run: "ComputeObservedCharge np dfelec channel_threshold s = Inr (out, s')"
      by (cases "ComputeObservedCharge np dfelec channel_threshold s") auto
    from a have row: "row \<in> set dfelec" and i: "i < length (fChannelCharge row)" by simp_all
    from run_arrays_long_enough [OF run row i] run_signal_arrays_long_enough [OF run row i] a
    show False by auto
  qed
qed

theorem C4_longer_arrays_truncated_witness:
  "ComputeObservedCharge scripted (map truncate_event [long_event]) default_channel_threshold []
     = ComputeObservedCharge scripted [long_event] default_channel_threshold [] \<and>
   short_event \<in> set [short_event] \<and> (0::nat) < length (fChannelCharge short_event) \<and>
   length (fChannelLocalId short_event) \<le> 0 \<and>
   isl (ComputeObservedCharge scripted [short_event] default_channel_threshold [])"
proof -
  have h: "short_event \<in> set [short_event] \<and> (0::nat) < length (fChannelCharge short_event) \<and>
    length (fChannelLocalId short_event) \<le> 0"
    by (simp add: short_event_def)
  from C4_longer_arrays_truncated [of scripted "[long_event]" default_channel_threshold "[]"]
    C4_longer_arrays_truncated [of scripted "[short_event]" default_channel_threshold "[]"
      short_event 0]
    h
  show ?thesis by simp
qed

theorem C4_mismatch_not_reported_counterexample:
  "length (fChannelTime long_event) \<noteq> length (fChannelCharge long_event) \<and>
   ComputeObservedCharge scripted [long_event] default_channel_threshold [] =
     Inr (\<lparr>num_channels_in_evt = [1],
           evt_charge_including_noise = [Fin 5],
           evt_charge_excluding_noise = [Fin 5],
           evt_charge_above_threshold = [Fin 5],
           num_channels_above_threshold = [1],
           num_channels_excluding_noise = [1],
           num_channels_collection = [1],
           num_collection_below_threshold = [0],
           num_channels_induction = [0],
           weighted_radius = [Fin 4],
           weighted_drift = [Fin 100],
           num_channels_nonzero_charge_with_noise = [1],
           num_channels_nonzero_charge_excluding_noise = [1]\<rparr>, [])"
proof -
  have "sqrt 16 = sqrt (4\<^sup>2)" by simp
  then have "sqrt 16 = 4" by (simp only: real_sqrt_abs)
  then show ?thesis by (simp add: run_defs long_event_def)
qed

text \<open>
  C5, as amended. For the scenario event (two channels that are not noise, charge 5 and
  drift time 100 each) \<^verbatim>\<open>ComputeObservedCharge\<close> returns, and \<^verbatim>\<open>weighted_drift\<close> is exactly
  100 when the two draws of \<^verbatim>\<open>np.random.normal(0.,2.)\<close> made in the channel loop are both 0.
  At these values every operation of the computation (\<open>100 + 0\<close>, \<open>100 * 5\<close>, \<open>500 + 500\<close>,
  \<open>5 + 5\<close>, \<open>1000 / 10\<close>) is exact in \<^verbatim>\<open>float64\<close> as well. With other draws the jitter
  enters the result: the run after the witness has jitters 1 and 1 and returns 101, again
  with every operation exact.
\<close>

theorem C5_weighted_drift_without_jitter:
  assumes "fst (normal np 0 2 s) = Fin 0"
    and "fst (normal np 0 2 (snd (normal np 0 2 s))) = Fin 0"
  shows "returned_column weighted_drift
     (ComputeObservedCharge np [scenario_event lx ly] channel_threshold s) = Some [Fin 100]"
proof -
  obtain j1 s1 where d1: "normal np 0 2 s = (j1, s1)" by (cases "normal np 0 2 s")
  obtain j2 s2 where d2: "normal np 0 2 s1 = (j2, s2)" by (cases "normal np 0 2 s1")
  from assms d1 d2 have j: "j1 = Fin 0" "j2 = Fin 0" by simp_all
  let ?row = "scenario_event lx ly"
  have loop: "\<exists>ch. channel_loop np ?row [0..<length (fChannelCharge ?row)] (empty_lists, s)
      = Inr (ch, s2) \<and> is_noise_channel ch = [False, False] \<and>
        drift_times ch = [Fin 100, Fin 100] \<and> charge_weights ch = [Fin 5, Fin 5]"
    using d1 d2 j
    by (simp add: channel_step_def index_def strip_geometry_def empty_lists_def
        scenario_event_def upt_rec)
  then obtain ch where
    ch: "channel_loop np ?row [0..<length (fChannelCharge ?row)] (empty_lists, s) = Inr (ch, s2)"
      "is_noise_channel ch = [False, False]" "drift_times ch = [Fin 100, Fin 100]"
      "charge_weights ch = [Fin 5, Fin 5]"
    by blast
  then have "\<exists>obs s3. process_event np channel_threshold ?row s = Inr (obs, s3) \<and>
      ev_weighted_drift obs = Fin 100"
    by (simp add: process_event_def event_observables_def invert_list_array_def Let_def
        split_beta)
  then show ?thesis
    by (auto simp: returned_column_def ComputeObservedCharge_def progress_report_def
        make_output_dict_def)
qed

theorem C5_weighted_drift_without_jitter_witness:
  "fst (normal scripted 0 2 [0, 0]) = Fin 0 \<and>
   fst (normal scripted 0 2 (snd (normal scripted 0 2 [0, 0]))) = Fin 0 \<and>
   returned_column weighted_drift
     (ComputeObservedCharge scripted [scenario_event 16 0] default_channel_threshold [0, 0])
     = Some [Fin 100]"
proof -
  have h: "fst (normal scripted 0 2 [0, 0]) = Fin 0"
    "fst (normal scripted 0 2 (snd (normal scripted 0 2 [0, 0]))) = Fin 0"
    by (simp_all add: normal_def scripted_def)
  from C5_weighted_drift_without_jitter [OF h] h show ?thesis by simp
qed

theorem C5_weighted_drift_not_100_counterexample:
  "returned_column weighted_drift
     (ComputeObservedCharge scripted [scenario_event 16 0] default_channel_threshold [1 / 2, 1 / 2])
     = Some [Fin 101]"
  by (simp add: returned_column_def run_defs scenario_event_def upt_rec)

text \<open>
  C6, as amended. In a channel loop that raises nothing, a channel is flagged as noise
  exactly when its tag is truthy in the sense of the specification, and the drift times,
  positions, weights and charge weights have one entry for each channel that is not noise,
  and none for a noise channel. A tag that is an array of more than one element is not
  reduced by "any": the call raises.
\<close>

theorem C6_noise_classification:
  "(channel_loop np row [0..<length (fChannelCharge row)] (empty_lists, s) = Inr (ch, s') \<longrightarrow>
      is_noise_channel ch = map (\<lambda>i. spec_truthy (fChannelNoiseTag row ! i))
        [0..<length (fChannelCharge row)] \<and>
      non_noise row [0..<length (fChannelCharge row)]
        = filter (\<lambda>i. \<not> spec_truthy (fChannelNoiseTag row ! i)) [0..<length (fChannelCharge row)] \<and>
      drift_times ch = map2 (\<lambda>i j. fadd (fChannelTime row ! i) j)
        (non_noise row [0..<length (fChannelCharge row)])
        (fst (normal_size np 0 2 (length (non_noise row [0..<length (fChannelCharge row)])) s)) \<and>
      charge_weights ch = map (\<lambda>i. fChannelCharge row ! i)
        (non_noise row [0..<length (fChannelCharge row)]) \<and>
      length (x_positions ch) = length (non_noise row [0..<length (fChannelCharge row)]) \<and>
      length (y_positions ch) = length (non_noise row [0..<length (fChannelCharge row)]) \<and>
      length (x_weights ch) = length (non_noise row [0..<length (fChannelCharge row)]) \<and>
      length (y_weights ch) = length (non_noise row [0..<length (fChannelCharge row)])) \<and>
   (row \<in> set dfelec \<and> i < length (fChannelCharge row) \<and> i < length (fChannelNoiseTag row) \<and>
    fChannelNoiseTag row ! i = TagArray (v # w # vs) \<longrightarrow>
      isl (ComputeObservedCharge np dfelec channel_threshold s))"
proof (intro conjI impI)
  let ?is = "[0..<length (fChannelCharge row)]"
  let ?t = "\<lambda>i. array_truth (fChannelNoiseTag row ! i)"
  assume loop: "channel_loop np row ?is (empty_lists, s) = Inr (ch, s')"
  note lists = channel_loop_lists [OF loop]
  have tt: "\<And>i. i \<in> set ?is \<Longrightarrow> ?t i = Inr (spec_truthy (fChannelNoiseTag row ! i))"
  proof -
    fix i assume "i \<in> set ?is"
    from channel_loop_in_range [OF loop this] obtain b where b: "?t i = Inr b" by blast
    with array_truth_spec [OF b] show "?t i = Inr (spec_truthy (fChannelNoiseTag row ! i))" by simp
  qed
  from lists have "is_noise_channel ch = map (\<lambda>i. ?t i = Inr True) ?is"
    by (simp add: empty_lists_def)
  also have "\<dots> = map (\<lambda>i. spec_truthy (fChannelNoiseTag row ! i)) ?is"
    by (rule map_cong [OF refl]) (simp add: tt)
  finally show "is_noise_channel ch = map (\<lambda>i. spec_truthy (fChannelNoiseTag row ! i)) ?is" .
  show "non_noise row ?is = filter (\<lambda>i. \<not> spec_truthy (fChannelNoiseTag row ! i)) ?is"
    unfolding non_noise_def by (rule filter_cong [OF refl]) (simp add: tt)
  from lists show "drift_times ch = map2 (\<lambda>i j. fadd (fChannelTime row ! i) j)
        (non_noise row ?is) (fst (normal_size np 0 2 (length (non_noise row ?is)) s))"
    by (simp add: empty_lists_def)
  from lists show "charge_weights ch = map (\<lambda>i. fChannelCharge row ! i) (non_noise row ?is)"
    by (simp add: empty_lists_def)
  from lists show "length (x_positions ch) = length (non_noise row ?is)"
    by (simp add: empty_lists_def)
  from lists show "length (y_positions ch) = length (non_noise row ?is)"
    by (simp add: empty_lists_def)
  from lists show "length (x_weights ch) = length (non_noise row ?is)"
    by (simp add: empty_lists_def)
  from lists show "length (y_weights ch) = length (non_noise row ?is)"
    by (simp add: empty_lists_def)
next
  assume a: "row \<in> set dfelec \<and> i < length (fChannelCharge row) \<and>
    i < length (fChannelNoiseTag row) \<and> fChannelNoiseTag row ! i = TagArray (v # w # vs)"
  show "isl (ComputeObservedCharge np dfelec channel_threshold s)"
  proof (rule ccontr)
    assume "\<not> isl (ComputeObservedCharge np dfelec channel_threshold s)"
    then obtain out s' where
      run: "ComputeObservedCharge np dfelec channel_threshold s = Inr (out, s')"
      by (cases "ComputeObservedCharge np dfelec channel_threshold s") auto
    from run_arrays_long_enough [OF run, of row i] a show False by auto
  qed
qed

theorem C6_noise_classification_witness:
  "(case channel_loop scripted noise_event [0..<length (fChannelCharge noise_event)]
          (empty_lists, []) of
      Inl e \<Rightarrow> False
    | Inr (ch, s') \<Rightarrow> is_noise_channel ch = [True] \<and> drift_times ch = [] \<and> charge_weights ch = []) \<and>
   multi_tag_event \<in> set [multi_tag_event] \<and>
   (0::nat) < length (fChannelCharge multi_tag_event) \<and>
   fChannelNoiseTag multi_tag_event ! 0 = TagArray (0 # 1 # []) \<and>
   isl (ComputeObservedCharge scripted [multi_tag_event] default_channel_threshold [])"
proof -
  obtain ch s' where loop:
    "channel_loop scripted noise_event [0..<length (fChannelCharge noise_event)] (empty_lists, [])
       = Inr (ch, s')"
    by (simp add: run_defs noise_event_def)
  have nn: "non_noise noise_event [0..<length (fChannelCharge noise_event)] = []"
    by (simp add: non_noise_def noise_event_def)
  have h: "multi_tag_event \<in> set [multi_tag_event] \<and>
    (0::nat) < length (fChannelCharge multi_tag_event) \<and>
    (0::nat) < length (fChannelNoiseTag multi_tag_event) \<and>
    fChannelNoiseTag multi_tag_event ! 0 = TagArray (0 # 1 # [])"
    by (simp add: multi_tag_event_def)
  from C6_noise_classification [where np = scripted and row = noise_event and s = "[]"
      and ch = ch and s' = s', THEN conjunct1] loop nn
  have "is_noise_channel ch = [True] \<and> drift_times ch = [] \<and> charge_weights ch = []"
    by (simp add: noise_event_def)
  moreover from C6_noise_classification [where np = scripted and row = multi_tag_event
      and dfelec = "[multi_tag_event]" and i = 0 and v = 0 and w = 1 and vs = "[]"
      and channel_threshold = default_channel_threshold and s = "[]", THEN conjunct2] h
  have "isl (ComputeObservedCharge scripted [multi_tag_event] default_channel_threshold [])"
    by blast
  ultimately show ?thesis using loop h by simp
qed

theorem C6_array_tag_counterexample:
  "spec_truthy (fChannelNoiseTag multi_tag_event ! 0) \<and>
   ComputeObservedCharge scripted [multi_tag_event] default_channel_threshold []
     = Inl ValueError"
  by (simp add: run_defs multi_tag_event_def)

text \<open>
  C7. For every event of a run of \<^verbatim>\<open>ComputeObservedCharge\<close> that returns (as every run on
  fewer than 100000 readable events does, by \<open>ComputeObservedCharge_returns\<close>), the number
  of collection channels plus the number of induction channels is the number of channels
  that are not noise; the three output arrays have one entry per event.
\<close>

theorem C7_collection_plus_induction:
  assumes "ComputeObservedCharge np dfelec channel_threshold s = Inr (out, s')"
    and "k < length dfelec"
  shows "length (num_channels_collection out) = length dfelec \<and>
         length (num_channels_induction out) = length dfelec \<and>
         length (num_channels_excluding_noise out) = length dfelec \<and>
         num_channels_collection out ! k + num_channels_induction out ! k
           = num_channels_excluding_noise out ! k"
proof -
  from ComputeObservedCharge_Inr [OF assms(1)] obtain rows where
    run: "event_loop np channel_threshold dfelec (0, [], s) = Inr (rows, s')" and
    out: "out = make_output_dict rows" by blast
  from event_loop_nth [OF run assms(2)] obtain sk sk' where
    len: "length rows = length dfelec" and
    pe: "process_event np channel_threshold (dfelec ! k) sk = Inr (rows ! k, sk')" by blast
  from process_event_counts [OF pe] len assms(2) show ?thesis
    by (simp add: out make_output_dict_def)
qed

theorem C7_collection_plus_induction_witness:
  "(0::nat) < length [scenario_event 16 0] \<and>
   (case ComputeObservedCharge scripted [scenario_event 16 0] default_channel_threshold [] of
      Inl e \<Rightarrow> False
    | Inr (out, s') \<Rightarrow>
        num_channels_collection out ! 0 + num_channels_induction out ! 0
          = num_channels_excluding_noise out ! 0)"
proof -
  obtain out s' where run:
    "ComputeObservedCharge scripted [scenario_event 16 0] default_channel_threshold [] = Inr (out, s')"
    by (simp add: run_defs scenario_event_def)
  from C7_collection_plus_induction [OF run, of 0] run show ?thesis by simp
qed

text \<open>
  C8. In a run that returns, with \<open>s_k\<close> the generator state that the first \<open>k\<close> events
  leave: if \<^verbatim>\<open>channel_threshold\<close> is greater than every fluctuated charge of event \<open>k\<close>,
  the event has no channel above threshold and its charge above threshold is \<open>0\<close>.
\<close>

theorem C8_threshold_above_all_charges:
  assumes run: "ComputeObservedCharge np dfelec channel_threshold s = Inr (out, s')"
    and k: "k < length dfelec"
    and pre: "ComputeObservedCharge np (take k dfelec) channel_threshold s = Inr (out_k, s_k)"
    and above: "\<forall>c\<in>set (event_fluctuated_charge np (dfelec ! k) s_k). fgt channel_threshold c"
  shows "num_channels_above_threshold out ! k = 0 \<and> evt_charge_above_threshold out ! k = Fin 0"
proof -
  from ComputeObservedCharge_Inr [OF run] obtain rows where
    loop: "event_loop np channel_threshold dfelec (0, [], s) = Inr (rows, s')" and
    out: "out = make_output_dict rows" by blast
  from ComputeObservedCharge_Inr [OF pre] obtain rows_k where
    loop_k: "event_loop np channel_threshold (take k dfelec) (0, [], s) = Inr (rows_k, s_k)"
    by blast
  from event_loop_nth [OF loop k] loop_k obtain sk' where
    len: "length rows = length dfelec" and
    pe: "process_event np channel_threshold (dfelec ! k) s_k = Inr (rows ! k, sk')" by auto
  from process_event_above_threshold [OF pe above] len k show ?thesis
    by (simp add: out make_output_dict_def)
qed

theorem C8_threshold_above_all_charges_witness:
  "(0::nat) < length [scenario_event 16 0] \<and>
   ComputeObservedCharge scripted (take 0 [scenario_event 16 0]) (Fin 1000) [] =
     Inr (make_output_dict [], []) \<and>
   event_fluctuated_charge scripted ([scenario_event 16 0] ! 0) [] = [Fin 5, Fin 5] \<and>
   fgt (Fin 1000) (Fin 5) \<and>
   returned_column num_channels_above_threshold
     (ComputeObservedCharge scripted [scenario_event 16 0] (Fin 1000) []) = Some [0] \<and>
   returned_column evt_charge_above_threshold
     (ComputeObservedCharge scripted [scenario_event 16 0] (Fin 1000) []) = Some [Fin 0]"
proof -
  let ?evs = "[scenario_event 16 0]"
  have pre: "ComputeObservedCharge scripted (take 0 ?evs) (Fin 1000) [] = Inr (make_output_dict [], [])"
    by (simp add: ComputeObservedCharge_def)
  have fl: "event_fluctuated_charge scripted (?evs ! 0) [] = [Fin 5, Fin 5]"
    by (simp add: event_fluctuated_charge_def run_defs scenario_event_def upt_rec)
  obtain out s' where run: "ComputeObservedCharge scripted ?evs (Fin 1000) [] = Inr (out, s')"
    by (simp add: run_defs scenario_event_def upt_rec)
  have above: "\<forall>c\<in>set (event_fluctuated_charge scripted (?evs ! 0) []). fgt (Fin 1000) c"
    unfolding fl by simp
  from ComputeObservedCharge_Inr [OF run] event_loop_rows
  have len: "length (num_channels_above_threshold out) = 1"
    "length (evt_charge_above_threshold out) = 1"
    by (fastforce simp: make_output_dict_def)+
  from C8_threshold_above_all_charges [OF run _ pre above]
  have "num_channels_above_threshold out ! 0 = 0" "evt_charge_above_threshold out ! 0 = Fin 0"
    by simp_all
  with len have "num_channels_above_threshold out = [0]" "evt_charge_above_threshold out = [Fin 0]"
    by (cases "num_channels_above_threshold out"; cases "evt_charge_above_threshold out"; simp)+
  with run pre fl show ?thesis by (simp add: returned_column_def)
qed

text \<open>
  C9. With samplers that stay in the support of their distributions, and a column
  \<^verbatim>\<open>fInitNOP\<close> without negative entries, \<^verbatim>\<open>ComputeObservedLight\<close> returns an array of the
  length of the column, and its entry is \<open>0\<close> for every event whose photon count is \<open>0\<close>,
  whatever the state of the generator.
\<close>

theorem C9_no_photon_no_photoelectron:
  assumes bin: "binomial_in_support np" and poi: "poisson_in_support np"
    and nonneg: "\<forall>n\<in>set fInitNOP. 0 \<le> n"
    and k: "k < length fInitNOP" and zero: "fInitNOP ! k = 0"
  shows "\<exists>pe. returned_photoelectrons (ComputeObservedLight np fInitNOP s) = Some pe \<and>
           length pe = length fInitNOP \<and> pe ! k = 0"
proof -
  let ?b = "\<lambda>s n. binomial np s (nat n) (3 / 100)"
  let ?p = "\<lambda>s k. poisson np s (real k * (2 / 10))"
  let ?det = "fst (draw_each ?b fInitNOP s)"
  let ?s1 = "snd (draw_each ?b fInitNOP s)"
  let ?smear = "fst (draw_each ?p ?det ?s1)"
  from nonneg have "\<not> list_ex (\<lambda>n. n < 0) fInitNOP"
    by (auto simp: list_ex_iff)
  then have ret: "returned_photoelectrons (ComputeObservedLight np fInitNOP s)
      = Some (map2 (+) ?det ?smear)"
    by (simp add: ComputeObservedLight_def returned_photoelectrons_def split: prod.splits)
  have ld: "length ?det = length fInitNOP" by (rule draw_each_length)
  have ls: "length ?smear = length fInitNOP" by (simp add: draw_each_length)
  from draw_each_nth [OF k, of ?b s] obtain sk where "?det ! k = fst (?b sk (fInitNOP ! k))"
    by blast
  with zero bin have d0: "?det ! k = 0"
    by (metis binomial_in_support_def le_zero_eq nat_zero_as_int)
  from k ld have "k < length ?det" by simp
  from draw_each_nth [OF this, of ?p ?s1] obtain sk' where
    "?smear ! k = fst (?p sk' (?det ! k))" by blast
  with d0 poi have s0: "?smear ! k = 0"
    by (simp add: poisson_in_support_def)
  from k ld ls d0 s0 have "map2 (+) ?det ?smear ! k = 0" by simp
  with ret ld ls show ?thesis by simp
qed

theorem C9_no_photon_no_photoelectron_witness:
  "binomial_in_support scripted \<and> poisson_in_support scripted \<and>
   list_all (\<lambda>n. 0 \<le> n) [0, 5 :: int] \<and> (0::nat) < length [0, 5 :: int] \<and>
   [0, 5 :: int] ! 0 = 0 \<and>
   map_option (\<lambda>pe. pe ! 0)
     (returned_photoelectrons
        (ComputeObservedLight scripted [0, 5] [1 / 100, 1 / 2, 1 / 100, 1 / 2, 1 / 2])) = Some 0"
proof -
  have b: "binomial_in_support scripted"
    by (simp add: binomial_in_support_def scripted_def scripted_binomial_def
        le_trans [OF length_filter_le])
  have p: "poisson_in_support scripted"
    by (simp add: poisson_in_support_def scripted_def scripted_poisson_def)
  from C9_no_photon_no_photoelectron [OF b p, of "[0, 5]" 0 "[1 / 100, 1 / 2, 1 / 100, 1 / 2, 1 / 2]"]
  show ?thesis using b p by auto
qed

end
